theory Spec2Isabelle
  imports Main "HOL-Library.AList"
begin

section \<open>Data model\<close>

text \<open>
  The flat record of \<^verbatim>\<open>adapter.go\<close>: the struct \<^verbatim>\<open>CasbinRule\<close> with its seven string
  fields. Go strings are byte sequences, here \<^typ>\<open>string\<close>; the zero value is the empty
  string.
\<close>

record CasbinRule =
  PType :: string
  V0 :: string
  V1 :: string
  V2 :: string
  V3 :: string
  V4 :: string
  V5 :: string

text \<open>
  The policy model of the authorization engine, as far as the adapter reads and writes it:
  \<^verbatim>\<open>model.Model\<close> is a Go map from section to \<^verbatim>\<open>AssertionMap\<close>, which is a Go map from
  policy type to a pointer to an \<^verbatim>\<open>Assertion\<close>. The adapter touches the field
  \<^verbatim>\<open>Policy\<close> only. Each pair of section and policy type is taken to point to an assertion
  of its own (no two keys share one), so an update through the pointer is an update of the
  nested map at that key.
\<close>

record Assertion =
  Key :: string
  Value :: string
  Tokens :: "string list"
  Policy :: "string list list"

type_synonym AssertionMap = "string \<rightharpoonup> Assertion"

type_synonym Model = "string \<rightharpoonup> AssertionMap"

text \<open>Run-time panics of Go that the adapter's code can reach.\<close>

datatype panic = SliceBoundsOutOfRange | IndexOutOfRange | NilPointerDereference

section \<open>Record codec\<close>

text \<open>\<^verbatim>\<open>savePolicyLine\<close> (adapter.go, lines 234 to 259).\<close>

definition savePolicyLine :: "string \<Rightarrow> string list \<Rightarrow> CasbinRule" where
  "savePolicyLine ptype rule =
     (let line = \<lparr>PType = ptype, V0 = [], V1 = [], V2 = [], V3 = [], V4 = [], V5 = []\<rparr>;
          line = (if length rule > 0 then line\<lparr>V0 := rule ! 0\<rparr> else line);
          line = (if length rule > 1 then line\<lparr>V1 := rule ! 1\<rparr> else line);
          line = (if length rule > 2 then line\<lparr>V2 := rule ! 2\<rparr> else line);
          line = (if length rule > 3 then line\<lparr>V3 := rule ! 3\<rparr> else line);
          line = (if length rule > 4 then line\<lparr>V4 := rule ! 4\<rparr> else line);
          line = (if length rule > 5 then line\<lparr>V5 := rule ! 5\<rparr> else line)
      in line)"

text \<open>
  The chain of tests and \<^verbatim>\<open>goto LineEnd\<close> of \<^verbatim>\<open>loadPolicyLine\<close> (lines 265 to 300):
  each field is appended while it is non-empty, and the first empty field jumps to the end.
\<close>

definition loadPolicyLine_tokens :: "CasbinRule \<Rightarrow> string list" where
  "loadPolicyLine_tokens line =
     (if V0 line \<noteq> [] then
        (if V1 line \<noteq> [] then
           (if V2 line \<noteq> [] then
              (if V3 line \<noteq> [] then
                 (if V4 line \<noteq> [] then
                    (if V5 line \<noteq> [] then
                       [V0 line, V1 line, V2 line, V3 line, V4 line, V5 line]
                     else [V0 line, V1 line, V2 line, V3 line, V4 line])
                  else [V0 line, V1 line, V2 line, V3 line])
               else [V0 line, V1 line, V2 line])
            else [V0 line, V1 line])
         else [V0 line])
      else [])"

text \<open>
  \<^verbatim>\<open>loadPolicyLine\<close> (lines 261 to 304). \<^verbatim>\<open>key[:1]\<close> panics on an empty string. A
  missing section gives a nil map, whose lookup gives a nil pointer, and a missing policy
  type gives a nil pointer as well: the assignment to \<^verbatim>\<open>.Policy\<close> then panics.
\<close>

definition loadPolicyLine :: "CasbinRule \<Rightarrow> Model \<Rightarrow> panic + Model" where
  "loadPolicyLine line model =
     (let key = PType line in
      if length key < 1 then Inl SliceBoundsOutOfRange
      else
        let sec = take 1 key;
            tokens = loadPolicyLine_tokens line
        in (case model sec of
              None \<Rightarrow> Inl NilPointerDereference
            | Some am \<Rightarrow>
                (case am key of
                   None \<Rightarrow> Inl NilPointerDereference
                 | Some ast \<Rightarrow>
                     Inr (model(sec \<mapsto> am(key \<mapsto> ast\<lparr>Policy := Policy ast @ [tokens]\<rparr>))))))"

section \<open>Filter planner\<close>

text \<open>
  Go's \<^verbatim>\<open>int\<close> is a 64-bit two's complement integer: a value is an \<^typ>\<open>int\<close> in the
  range from \<open>- 2^63\<close> up to \<open>2^63 - 1\<close>, and sum and difference wrap around.
\<close>

definition wrap64 :: "int \<Rightarrow> int" where
  "wrap64 x = (x + 2 ^ 63) mod 2 ^ 64 - 2 ^ 63"

definition go_add :: "int \<Rightarrow> int \<Rightarrow> int" where
  "go_add x y = wrap64 (x + y)"

definition go_sub :: "int \<Rightarrow> int \<Rightarrow> int" where
  "go_sub x y = wrap64 (x - y)"

text \<open>Indexing a slice panics outside its bounds.\<close>

definition go_index :: "'a list \<Rightarrow> int \<Rightarrow> panic + 'a" where
  "go_index xs i =
     (if 0 \<le> i \<and> i < int (length xs) then Inr (xs ! nat i) else Inl IndexOutOfRange)"

text \<open>
  The selector of \<^verbatim>\<open>RemoveFilteredPolicy\<close> is a Go map that the code ranges over; it is an
  association list here, assigned with \<^const>\<open>AList.update\<close>, so that the range loop has
  entries to visit.
\<close>

type_synonym selector = "(string \<times> string) list"

text \<open>
  One of the six blocks of lines 180 to 209, for the field position \<open>k\<close> and its field name.
  The six blocks differ in nothing but these two. \<^verbatim>\<open>&&\<close> evaluates the sum only when the
  first test holds.
\<close>

definition selector_block ::
    "int \<Rightarrow> string \<Rightarrow> int \<Rightarrow> string list \<Rightarrow> selector \<Rightarrow> panic + selector" where
  "selector_block k name fieldIndex fieldValues selector =
     (if fieldIndex \<le> k \<and> k < go_add fieldIndex (int (length fieldValues)) then
        (case go_index fieldValues (go_sub k fieldIndex) of
           Inl p \<Rightarrow> Inl p
         | Inr v \<Rightarrow> if v \<noteq> [] then Inr (AList.update name v selector) else Inr selector)
      else Inr selector)"

text \<open>Sequencing of steps that may stop early, with a panic or with an error.\<close>

definition bind_sum :: "'e + 'a \<Rightarrow> ('a \<Rightarrow> 'e + 'b) \<Rightarrow> 'e + 'b" where
  "bind_sum r f = (case r of Inl e \<Rightarrow> Inl e | Inr x \<Rightarrow> f x)"

text \<open>Lines 177 to 209: the selector that \<^verbatim>\<open>RemoveFilteredPolicy\<close> builds.\<close>

definition filter_selector :: "string \<Rightarrow> int \<Rightarrow> string list \<Rightarrow> panic + selector" where
  "filter_selector ptype fieldIndex fieldValues =
     bind_sum (selector_block 0 ''v0'' fieldIndex fieldValues
                   (AList.update ''p_type'' ptype [])) (\<lambda>s0.
     bind_sum (selector_block 1 ''v1'' fieldIndex fieldValues s0) (\<lambda>s1.
     bind_sum (selector_block 2 ''v2'' fieldIndex fieldValues s1) (\<lambda>s2.
     bind_sum (selector_block 3 ''v3'' fieldIndex fieldValues s2) (\<lambda>s3.
     bind_sum (selector_block 4 ''v4'' fieldIndex fieldValues s3) (\<lambda>s4.
     selector_block 5 ''v5'' fieldIndex fieldValues s4)))))"

section \<open>The document store\<close>

text \<open>
  The adapter runs against Cloud Firestore, which is not part of the repository. The store
  is modelled as far as the adapter uses it: documents with a reference (collection and
  identifier) and named fields, queries with \<^verbatim>\<open>Where\<close> filters, document iterators, and
  transactions that buffer their writes and apply all of them or none.
\<close>

text \<open>
  The value of a field is a string, null, or a value of another type, for which a number
  stands.
\<close>

datatype fs_value = StringValue string | IntegerValue int | NullValue

datatype doc_id = AutoId nat | Named string

record DocumentRef =
  Parent :: string
  ID :: doc_id

record DocumentSnapshot =
  Ref :: DocumentRef
  Fields :: "(string \<times> fs_value) list"

type_synonym database = "DocumentSnapshot list"

datatype error =
    TransportError string
  | DecodeError string
  | FileError string
  | ModelError string

text \<open>
  What the environment does to a call: the error, if any, that the \<open>n\<close>-th call of
  \<^verbatim>\<open>Next\<close> on an iterator returns, the error of a write of a transaction that already
  holds \<open>n\<close> writes, and the error of the commit.
\<close>

record faults =
  next_err :: "nat \<Rightarrow> error option"
  write_err :: "nat \<Rightarrow> error option"
  commit_err :: "error option"

definition no_faults :: faults where
  "no_faults = \<lparr>next_err = (\<lambda>n. None), write_err = (\<lambda>n. None), commit_err = None\<rparr>"

subsection \<open>Queries\<close>

datatype operator = GreaterThan | EqualTo

record query =
  q_collection :: string
  q_filters :: "(string \<times> operator \<times> string) list"

definition Collection_query :: "string \<Rightarrow> query" where
  "Collection_query c = \<lparr>q_collection = c, q_filters = []\<rparr>"

definition Where :: "query \<Rightarrow> string \<Rightarrow> operator \<Rightarrow> string \<Rightarrow> query" where
  "Where q path opr v = q\<lparr>q_filters := q_filters q @ [(path, opr, v)]\<rparr>"

text \<open>Firestore orders strings by their bytes.\<close>

fun str_less :: "string \<Rightarrow> string \<Rightarrow> bool" where
  "str_less [] [] = False"
| "str_less [] (y # ys) = True"
| "str_less (x # xs) [] = False"
| "str_less (x # xs) (y # ys) =
     ((of_char x :: nat) < of_char y \<or> (x = y \<and> str_less xs ys))"

text \<open>
  A filter against a string holds of a document only when the document has the field and
  the field holds a string.
\<close>

definition satisfies :: "(string \<times> fs_value) list \<Rightarrow> string \<times> operator \<times> string \<Rightarrow> bool" where
  "satisfies fs flt =
     (case flt of (path, opr, v) \<Rightarrow>
        (case map_of fs path of
           Some (StringValue s) \<Rightarrow>
             (case opr of EqualTo \<Rightarrow> s = v | GreaterThan \<Rightarrow> str_less v s)
         | Some (IntegerValue i) \<Rightarrow> False
         | Some NullValue \<Rightarrow> False
         | None \<Rightarrow> False))"

definition matches :: "query \<Rightarrow> DocumentSnapshot \<Rightarrow> bool" where
  "matches q d = (Parent (Ref d) = q_collection q \<and> list_all (satisfies (Fields d)) (q_filters q))"

text \<open>
  A document iterator is the list of what its calls of \<^verbatim>\<open>Next\<close> return until
  \<^verbatim>\<open>iterator.Done\<close>: a document or an error, after which the adapter stops reading.
\<close>

fun iterate :: "(nat \<Rightarrow> error option) \<Rightarrow> nat \<Rightarrow> DocumentSnapshot list
    \<Rightarrow> (error + DocumentSnapshot) list" where
  "iterate f n [] = (case f n of Some e \<Rightarrow> [Inl e] | None \<Rightarrow> [])"
| "iterate f n (d # ds) =
     (case f n of Some e \<Rightarrow> [Inl e] | None \<Rightarrow> Inr d # iterate f (Suc n) ds)"

definition Documents :: "faults \<Rightarrow> database \<Rightarrow> query \<Rightarrow> (error + DocumentSnapshot) list" where
  "Documents fl db q = iterate (next_err fl) 0 (filter (matches q) db)"

subsection \<open>Transactions\<close>

datatype pending =
    DeleteWrite DocumentRef
  | CreateWrite DocumentRef "(string \<times> fs_value) list"
  | SetWrite DocumentRef "(string \<times> fs_value) list"

record Transaction =
  tx_db :: database
  tx_writes :: "pending list"

definition tx_Documents :: "faults \<Rightarrow> Transaction \<Rightarrow> query \<Rightarrow> (error + DocumentSnapshot) list" where
  "tx_Documents fl tx q = Documents fl (tx_db tx) q"

definition tx_write :: "faults \<Rightarrow> Transaction \<Rightarrow> pending \<Rightarrow> error option \<times> Transaction" where
  "tx_write fl tx w =
     (case write_err fl (length (tx_writes tx)) of
        Some e \<Rightarrow> (Some e, tx)
      | None \<Rightarrow> (None, tx\<lparr>tx_writes := tx_writes tx @ [w]\<rparr>))"

definition tx_Delete :: "faults \<Rightarrow> Transaction \<Rightarrow> DocumentRef \<Rightarrow> error option \<times> Transaction" where
  "tx_Delete fl tx r = tx_write fl tx (DeleteWrite r)"

definition tx_Create :: "faults \<Rightarrow> Transaction \<Rightarrow> DocumentRef \<Rightarrow> (string \<times> fs_value) list
    \<Rightarrow> error option \<times> Transaction" where
  "tx_Create fl tx r fs = tx_write fl tx (CreateWrite r fs)"

definition tx_Set :: "faults \<Rightarrow> Transaction \<Rightarrow> DocumentRef \<Rightarrow> (string \<times> fs_value) list
    \<Rightarrow> error option \<times> Transaction" where
  "tx_Set fl tx r fs = tx_write fl tx (SetWrite r fs)"

text \<open>
  \<^verbatim>\<open>NewDoc\<close> draws a random identifier that no document has. The model takes the least
  automatic identifier above those of the stored documents and of the documents the
  transaction is about to create.
\<close>

fun auto_num :: "doc_id \<Rightarrow> nat" where
  "auto_num (AutoId n) = n"
| "auto_num (Named s) = 0"

fun write_ref :: "pending \<Rightarrow> DocumentRef" where
  "write_ref (DeleteWrite r) = r"
| "write_ref (CreateWrite r fs) = r"
| "write_ref (SetWrite r fs) = r"

definition fresh_id :: "doc_id list \<Rightarrow> doc_id" where
  "fresh_id ids = AutoId (Suc (foldr (\<lambda>i m. max (auto_num i) m) ids 0))"

definition NewDoc :: "Transaction \<Rightarrow> string \<Rightarrow> DocumentRef" where
  "NewDoc tx c =
     \<lparr>Parent = c,
      ID = fresh_id (map (\<lambda>d. ID (Ref d)) (tx_db tx) @ map (\<lambda>w. ID (write_ref w)) (tx_writes tx))\<rparr>"

fun apply_write :: "database \<Rightarrow> pending \<Rightarrow> database" where
  "apply_write db (DeleteWrite r) = filter (\<lambda>d. Ref d \<noteq> r) db"
| "apply_write db (CreateWrite r fs) = db @ [\<lparr>Ref = r, Fields = fs\<rparr>]"
| "apply_write db (SetWrite r fs) = filter (\<lambda>d. Ref d \<noteq> r) db @ [\<lparr>Ref = r, Fields = fs\<rparr>]"

text \<open>
  \<^verbatim>\<open>RunTransaction\<close>: the function runs against the database as it is when the transaction
  begins; when it returns an error, or when the commit fails, the database stays as it was;
  otherwise all writes are applied, in their order. The store may run the function again
  after a conflict; the model is the attempt that decides the call. A create finds no
  document under its reference, since \<^verbatim>\<open>NewDoc\<close> gave an unused one.
\<close>

definition RunTransaction :: "faults \<Rightarrow> database
    \<Rightarrow> (Transaction \<Rightarrow> error option \<times> Transaction) \<Rightarrow> error option \<times> database" where
  "RunTransaction fl db f =
     (case f \<lparr>tx_db = db, tx_writes = []\<rparr> of
        (Some err, tx) \<Rightarrow> (Some err, db)
      | (None, tx) \<Rightarrow>
          (case commit_err fl of
             Some err \<Rightarrow> (Some err, db)
           | None \<Rightarrow> (None, foldl apply_write db (tx_writes tx))))"

subsection \<open>Struct conversion\<close>

text \<open>
  A \<^verbatim>\<open>CasbinRule\<close> is written with all seven fields, under the names of its struct tags.
\<close>

definition rule_fields :: "CasbinRule \<Rightarrow> (string \<times> fs_value) list" where
  "rule_fields r =
     [(''p_type'', StringValue (PType r)),
      (''v0'', StringValue (V0 r)), (''v1'', StringValue (V1 r)),
      (''v2'', StringValue (V2 r)), (''v3'', StringValue (V3 r)),
      (''v4'', StringValue (V4 r)), (''v5'', StringValue (V5 r))]"

text \<open>
  \<^verbatim>\<open>DataTo\<close> into a \<^verbatim>\<open>CasbinRule\<close> that holds zero values: a field that the document
  lacks, or holds as null, stays empty; a string is taken; a value of another type is an
  error. Fields of the document that the struct lacks are passed over.
\<close>

definition string_field :: "(string \<times> fs_value) list \<Rightarrow> string \<Rightarrow> error + string" where
  "string_field fs name =
     (case map_of fs name of
        None \<Rightarrow> Inr []
      | Some NullValue \<Rightarrow> Inr []
      | Some (StringValue s) \<Rightarrow> Inr s
      | Some (IntegerValue i) \<Rightarrow> Inl (DecodeError name))"

definition DataTo :: "DocumentSnapshot \<Rightarrow> error + CasbinRule" where
  "DataTo doc =
     bind_sum (string_field (Fields doc) ''p_type'') (\<lambda>p.
     bind_sum (string_field (Fields doc) ''v0'') (\<lambda>x0.
     bind_sum (string_field (Fields doc) ''v1'') (\<lambda>x1.
     bind_sum (string_field (Fields doc) ''v2'') (\<lambda>x2.
     bind_sum (string_field (Fields doc) ''v3'') (\<lambda>x3.
     bind_sum (string_field (Fields doc) ''v4'') (\<lambda>x4.
     bind_sum (string_field (Fields doc) ''v5'') (\<lambda>x5.
       Inr \<lparr>PType = p, V0 = x0, V1 = x1, V2 = x2, V3 = x3, V4 = x4, V5 = x5\<rparr>)))))))"

section \<open>The adapter\<close>

text \<open>\<^verbatim>\<open>Config.go\<close>.\<close>

definition defaultCollectionName :: string where
  "defaultCollectionName = ''casbin''"

record Config =
  Collection :: string

definition collectionName :: "Config \<Rightarrow> string" where
  "collectionName c = (if Collection c \<noteq> [] then Collection c else defaultCollectionName)"

text \<open>
  The struct \<^verbatim>\<open>adapter\<close>. Its field \<^verbatim>\<open>client\<close> is the connection to the store: the
  operations below take the database and return it.
\<close>

record adapter =
  collection :: string

definition NewAdapterWithConfig :: "Config \<Rightarrow> adapter" where
  "NewAdapterWithConfig config = \<lparr>collection = collectionName config\<rparr>"

definition NewAdapter :: adapter where
  "NewAdapter = NewAdapterWithConfig \<lparr>Collection = defaultCollectionName\<rparr>"

text \<open>\<^verbatim>\<open>newQuery\<close> (lines 56 to 58).\<close>

definition newQuery :: "adapter \<Rightarrow> query" where
  "newQuery a = Where (Collection_query (collection a)) ''p_type'' GreaterThan []"

subsection \<open>LoadPolicy\<close>

text \<open>The first loop of \<^verbatim>\<open>LoadPolicy\<close> (lines 66 to 79), which fills the local slice.\<close>

fun LoadPolicy_read :: "(error + DocumentSnapshot) list \<Rightarrow> CasbinRule list
    \<Rightarrow> error + CasbinRule list" where
  "LoadPolicy_read [] rules = Inr rules"
| "LoadPolicy_read (Inl err # iter) rules = Inl err"
| "LoadPolicy_read (Inr doc # iter) rules =
     (case DataTo doc of
        Inl err \<Rightarrow> Inl err
      | Inr rule \<Rightarrow> LoadPolicy_read iter (rules @ [rule]))"

text \<open>The second loop (lines 80 to 82).\<close>

fun LoadPolicy_lines :: "CasbinRule list \<Rightarrow> Model \<Rightarrow> panic + Model" where
  "LoadPolicy_lines [] model = Inr model"
| "LoadPolicy_lines (rule # rules) model =
     (case loadPolicyLine rule model of
        Inl p \<Rightarrow> Inl p
      | Inr model' \<Rightarrow> LoadPolicy_lines rules model')"

text \<open>
  \<^verbatim>\<open>LoadPolicy\<close> (lines 60 to 85) returns its error and leaves the model as the caller
  sees it afterwards, unless it panics.
\<close>

definition LoadPolicy :: "faults \<Rightarrow> adapter \<Rightarrow> database \<Rightarrow> Model \<Rightarrow> panic + (error option \<times> Model)" where
  "LoadPolicy fl a db model =
     (case LoadPolicy_read (Documents fl db (newQuery a)) [] of
        Inl err \<Rightarrow> Inr (Some err, model)
      | Inr rules \<Rightarrow>
          (case LoadPolicy_lines rules model of
             Inl p \<Rightarrow> Inl p
           | Inr model' \<Rightarrow> Inr (None, model')))"

subsection \<open>SavePolicy\<close>

text \<open>\<^verbatim>\<open>model[sec]\<close>: a missing section is a nil map, which reads as an empty one.\<close>

definition section_of :: "Model \<Rightarrow> string \<Rightarrow> AssertionMap" where
  "section_of model sec = (case model sec of None \<Rightarrow> Map.empty | Some am \<Rightarrow> am)"

text \<open>
  A range loop over a Go map visits the keys in an order that the run time chooses: the
  order is the list \<open>ks\<close> of the keys.
\<close>

definition range_map :: "('k \<rightharpoonup> 'v) \<Rightarrow> 'k list \<Rightarrow> ('k \<times> 'v) list" where
  "range_map m ks = concat (map (\<lambda>k. case m k of None \<Rightarrow> [] | Some v \<Rightarrow> [(k, v)]) ks)"

text \<open>One of the two nested loops of lines 90 to 102.\<close>

definition SavePolicy_lines :: "AssertionMap \<Rightarrow> string list \<Rightarrow> CasbinRule list" where
  "SavePolicy_lines am ks =
     concat (map (\<lambda>(ptype, ast). map (savePolicyLine ptype) (Policy ast)) (range_map am ks))"

text \<open>
  The loop that deletes what an iterator yields (lines 108 to 119, and again lines 157 to 168
  and 218 to 229).
\<close>

fun delete_all :: "faults \<Rightarrow> (error + DocumentSnapshot) list \<Rightarrow> Transaction
    \<Rightarrow> error option \<times> Transaction" where
  "delete_all fl [] tx = (None, tx)"
| "delete_all fl (Inl err # iter) tx = (Some err, tx)"
| "delete_all fl (Inr doc # iter) tx =
     (case tx_Delete fl tx (Ref doc) of
        (Some err, tx') \<Rightarrow> (Some err, tx')
      | (None, tx') \<Rightarrow> delete_all fl iter tx')"

text \<open>The loop that creates the new documents (lines 121 to 125).\<close>

fun create_all :: "faults \<Rightarrow> string \<Rightarrow> CasbinRule list \<Rightarrow> Transaction
    \<Rightarrow> error option \<times> Transaction" where
  "create_all fl c [] tx = (None, tx)"
| "create_all fl c (line # lines) tx =
     (case tx_Create fl tx (NewDoc tx c) (rule_fields line) of
        (Some err, tx') \<Rightarrow> (Some err, tx')
      | (None, tx') \<Rightarrow> create_all fl c lines tx')"

text \<open>
  \<^verbatim>\<open>SavePolicy\<close> (lines 87 to 131); \<open>pkeys\<close> and \<open>gkeys\<close> are the orders in which the two
  range loops visit the policy types.
\<close>

definition SavePolicy :: "faults \<Rightarrow> adapter \<Rightarrow> string list \<Rightarrow> string list \<Rightarrow> database \<Rightarrow> Model
    \<Rightarrow> error option \<times> database" where
  "SavePolicy fl a pkeys gkeys db model =
     (let lines = SavePolicy_lines (section_of model ''p'') pkeys
                  @ SavePolicy_lines (section_of model ''g'') gkeys
      in RunTransaction fl db (\<lambda>tx.
           case delete_all fl (tx_Documents fl tx (newQuery a)) tx of
             (Some err, tx') \<Rightarrow> (Some err, tx')
           | (None, tx') \<Rightarrow> create_all fl (collection a) lines tx'))"

subsection \<open>AddPolicy, RemovePolicy, RemoveFilteredPolicy\<close>

text \<open>\<^verbatim>\<open>AddPolicy\<close> (lines 133 to 141).\<close>

definition AddPolicy :: "faults \<Rightarrow> adapter \<Rightarrow> database \<Rightarrow> string \<Rightarrow> string \<Rightarrow> string list
    \<Rightarrow> error option \<times> database" where
  "AddPolicy fl a db sec ptype rule =
     (let line = savePolicyLine ptype rule
      in RunTransaction fl db (\<lambda>tx.
           tx_Create fl tx (NewDoc tx (collection a)) (rule_fields line)))"

text \<open>The query of \<^verbatim>\<open>RemovePolicy\<close> (lines 147 to 153).\<close>

definition RemovePolicy_query :: "adapter \<Rightarrow> CasbinRule \<Rightarrow> query" where
  "RemovePolicy_query a line =
     Where (Where (Where (Where (Where (Where (newQuery a)
       ''p_type'' EqualTo (PType line))
       ''v0'' EqualTo (V0 line))
       ''v1'' EqualTo (V1 line))
       ''v2'' EqualTo (V2 line))
       ''v3'' EqualTo (V3 line))
       ''v4'' EqualTo (V4 line)"

text \<open>\<^verbatim>\<open>RemovePolicy\<close> (lines 143 to 171).\<close>

definition RemovePolicy :: "faults \<Rightarrow> adapter \<Rightarrow> database \<Rightarrow> string \<Rightarrow> string \<Rightarrow> string list
    \<Rightarrow> error option \<times> database" where
  "RemovePolicy fl a db sec ptype rule =
     (let line = savePolicyLine ptype rule;
          q = RemovePolicy_query a line
      in RunTransaction fl db (\<lambda>tx. delete_all fl (tx_Documents fl tx q) tx))"

text \<open>
  The loop of lines 211 to 214 adds one equality filter for each entry of the selector, in
  the order of the range loop.
\<close>

fun where_all :: "query \<Rightarrow> (string \<times> string) list \<Rightarrow> query" where
  "where_all q [] = q"
| "where_all q ((k, v) # kvs) = where_all (Where q k EqualTo v) kvs"

text \<open>
  The query of \<^verbatim>\<open>RemoveFilteredPolicy\<close> (lines 177 to 214); \<open>order\<close> rearranges the
  entries of the selector into the order in which the range loop visits them.
\<close>

definition RemoveFilteredPolicy_query ::
    "(selector \<Rightarrow> selector) \<Rightarrow> adapter \<Rightarrow> string \<Rightarrow> int \<Rightarrow> string list \<Rightarrow> panic + query" where
  "RemoveFilteredPolicy_query order a ptype fieldIndex fieldValues =
     bind_sum (filter_selector ptype fieldIndex fieldValues) (\<lambda>selector.
       Inr (where_all (newQuery a) (order selector)))"

text \<open>\<^verbatim>\<open>RemoveFilteredPolicy\<close> (lines 173 to 232).\<close>

definition RemoveFilteredPolicy ::
    "faults \<Rightarrow> (selector \<Rightarrow> selector) \<Rightarrow> adapter \<Rightarrow> database \<Rightarrow> string \<Rightarrow> string \<Rightarrow> int
      \<Rightarrow> string list \<Rightarrow> panic + (error option \<times> database)" where
  "RemoveFilteredPolicy fl order a db sec ptype fieldIndex fieldValues =
     bind_sum (RemoveFilteredPolicy_query order a ptype fieldIndex fieldValues) (\<lambda>q.
       Inr (RunTransaction fl db (\<lambda>tx. delete_all fl (tx_Documents fl tx q) tx)))"

section \<open>The model definition store\<close>

text \<open>
  \<^verbatim>\<open>SaveModelWithConfig\<close> (model.go, lines 21 to 40). Reading the file and parsing the
  text belong to the Go library and to the authorization engine: \<open>ReadFile\<close> and
  \<open>NewModelFromString\<close> are taken as they come, each returning an error or its result.
\<close>

record CasbinModelConf =
  Text :: string

definition conf_fields :: "CasbinModelConf \<Rightarrow> (string \<times> fs_value) list" where
  "conf_fields m = [(''text'', StringValue (Text m))]"

definition SaveModelWithConfig ::
    "faults \<Rightarrow> (string \<Rightarrow> error + string) \<Rightarrow> (string \<Rightarrow> error + 'm) \<Rightarrow> database \<Rightarrow> string
      \<Rightarrow> Config \<Rightarrow> error option \<times> database" where
  "SaveModelWithConfig fl ReadFile NewModelFromString db path config =
     (case ReadFile path of
        Inl err \<Rightarrow> (Some err, db)
      | Inr text \<Rightarrow>
          (case NewModelFromString text of
             Inl err \<Rightarrow> (Some err, db)
           | Inr parsed \<Rightarrow>
               RunTransaction fl db (\<lambda>tx.
                 let ref = \<lparr>Parent = collectionName config, ID = Named ''conf''\<rparr>;
                     m = \<lparr>Text = text\<rparr>
                 in tx_Set fl tx ref (conf_fields m))))"

definition SaveModel ::
    "faults \<Rightarrow> (string \<Rightarrow> error + string) \<Rightarrow> (string \<Rightarrow> error + 'm) \<Rightarrow> database \<Rightarrow> string
      \<Rightarrow> error option \<times> database" where
  "SaveModel fl ReadFile NewModelFromString db path =
     SaveModelWithConfig fl ReadFile NewModelFromString db path
       \<lparr>Collection = defaultCollectionName\<rparr>"

section \<open>Notions of the specification\<close>

text \<open>The names of the six value fields, by field position.\<close>

definition field_names :: "string list" where
  "field_names = [''v0'', ''v1'', ''v2'', ''v3'', ''v4'', ''v5'']"

text \<open>
  Position \<open>k\<close> lies in the window of the filter and the value supplied for it is not the
  wildcard.
\<close>

definition constrained :: "int \<Rightarrow> string list \<Rightarrow> int \<Rightarrow> bool" where
  "constrained fi fvs k = (fi \<le> k \<and> k < fi + int (length fvs) \<and> fvs ! nat (k - fi) \<noteq> [])"

text \<open>What the block for position \<open>k\<close> adds to the selector.\<close>

definition entry :: "string \<Rightarrow> int \<Rightarrow> int \<Rightarrow> string list \<Rightarrow> (string \<times> string) list" where
  "entry name k fi fvs = (if constrained fi fvs k then [(name, fvs ! nat (k - fi))] else [])"

text \<open>
  Data for the examples: the model of \<^verbatim>\<open>adapter_test.go\<close> with one policy type in each
  section.
\<close>

definition p_assertion :: Assertion where
  "p_assertion = \<lparr>Key = ''p'', Value = ''sub, obj, act'', Tokens = [],
     Policy = [[''alice'', ''data1'', ''read''], [''bob'', ''data2'', ''write'']]\<rparr>"

definition g_assertion :: Assertion where
  "g_assertion = \<lparr>Key = ''g'', Value = ''_, _'', Tokens = [],
     Policy = [[''alice'', ''data2_admin'']]\<rparr>"

definition test_model :: Model where
  "test_model = [''p'' \<mapsto> [''p'' \<mapsto> p_assertion], ''g'' \<mapsto> [''g'' \<mapsto> g_assertion]]"

text \<open>
  The records that the adapter's base query selects: the documents of the adapter's
  collection whose type field holds a non-empty string.
\<close>

definition policy_record :: "adapter \<Rightarrow> DocumentSnapshot \<Rightarrow> bool" where
  "policy_record a d =
     (Parent (Ref d) = collection a \<and>
      (case map_of (Fields d) ''p_type'' of
         Some (StringValue s) \<Rightarrow> s \<noteq> []
       | Some (IntegerValue i) \<Rightarrow> False
       | Some NullValue \<Rightarrow> False
       | None \<Rightarrow> False))"

text \<open>The identifiers that a transaction sees in use.\<close>

definition ids_in_use :: "Transaction \<Rightarrow> doc_id list" where
  "ids_in_use tx =
     map (\<lambda>d. ID (Ref d)) (tx_db tx) @ map (\<lambda>w. ID (write_ref w)) (tx_writes tx)"

text \<open>
  The documents that the create loop adds to collection \<open>c\<close> for a list of lines, when the
  identifiers \<open>used\<close> are taken.
\<close>

fun new_documents :: "string \<Rightarrow> doc_id list \<Rightarrow> CasbinRule list \<Rightarrow> DocumentSnapshot list" where
  "new_documents c used [] = []"
| "new_documents c used (line # lines) =
     \<lparr>Ref = \<lparr>Parent = c, ID = fresh_id used\<rparr>, Fields = rule_fields line\<rparr>
       # new_documents c (used @ [fresh_id used]) lines"

text \<open>The rules that a model holds under a section and a policy type, if it has that type.\<close>

definition policy_at :: "Model \<Rightarrow> string \<Rightarrow> string \<Rightarrow> string list list option" where
  "policy_at model sec key =
     (case model sec of None \<Rightarrow> None | Some am \<Rightarrow> map_option Policy (am key))"

text \<open>
  The empty model that a reload starts from: \<^verbatim>\<open>ClearPolicy\<close> of the authorization engine,
  which the test calls before \<^verbatim>\<open>LoadPolicy\<close>, empties the policy of every assertion of the
  sections \<^verbatim>\<open>p\<close> and \<^verbatim>\<open>g\<close> and keeps the assertions.
\<close>

definition ClearPolicy :: "Model \<Rightarrow> Model" where
  "ClearPolicy model =
     (\<lambda>sec. if sec = ''p'' \<or> sec = ''g''
            then map_option (\<lambda>am key. map_option (\<lambda>ast. ast\<lparr>Policy := []\<rparr>) (am key)) (model sec)
            else model sec)"

text \<open>
  An order in which a range loop may visit the keys of a Go map: every key, once.
\<close>

definition range_order :: "'k list \<Rightarrow> ('k \<rightharpoonup> 'v) \<Rightarrow> bool" where
  "range_order ks m = (distinct ks \<and> set ks = dom m)"

text \<open>The lines that \<^verbatim>\<open>SavePolicy\<close> builds before its transaction.\<close>

definition saved_lines :: "Model \<Rightarrow> string list \<Rightarrow> string list \<Rightarrow> CasbinRule list" where
  "saved_lines model pkeys gkeys =
     SavePolicy_lines (section_of model ''p'') pkeys @ SavePolicy_lines (section_of model ''g'') gkeys"

text \<open>
  The database after a full replace: the documents that are no policy records of the
  adapter, followed by one new document for each line.
\<close>

definition saved_db :: "adapter \<Rightarrow> database \<Rightarrow> CasbinRule list \<Rightarrow> database" where
  "saved_db a db lines =
     filter (\<lambda>d. \<not> policy_record a d) db
     @ new_documents (collection a)
         (map (\<lambda>d. ID (Ref d)) db @ map (\<lambda>d. ID (Ref d)) (filter (policy_record a) db)) lines"

text \<open>
  A document of the adapter's collection whose type and whose fields 0 to 4 are the strings
  of a line; field 5 is not looked at.
\<close>

definition rule_match :: "adapter \<Rightarrow> CasbinRule \<Rightarrow> DocumentSnapshot \<Rightarrow> bool" where
  "rule_match a line d =
     (Parent (Ref d) = collection a
      \<and> map_of (Fields d) ''p_type'' = Some (StringValue (PType line))
      \<and> map_of (Fields d) ''v0'' = Some (StringValue (V0 line))
      \<and> map_of (Fields d) ''v1'' = Some (StringValue (V1 line))
      \<and> map_of (Fields d) ''v2'' = Some (StringValue (V2 line))
      \<and> map_of (Fields d) ''v3'' = Some (StringValue (V3 line))
      \<and> map_of (Fields d) ''v4'' = Some (StringValue (V4 line)))"

text \<open>
  Documents for the examples, in the default collection: the record that
  \<^verbatim>\<open>AddPolicy\<close> creates for a rule under the empty policy type, and the document that
  \<^verbatim>\<open>SaveModel\<close> stores.
\<close>

definition untyped_record :: DocumentSnapshot where
  "untyped_record =
     \<lparr>Ref = \<lparr>Parent = ''casbin'', ID = AutoId 1\<rparr>,
      Fields = rule_fields (savePolicyLine [] [''alice'', ''data1'', ''read''])\<rparr>"

definition conf_document :: DocumentSnapshot where
  "conf_document =
     \<lparr>Ref = \<lparr>Parent = ''casbin'', ID = Named ''conf''\<rparr>,
      Fields = conf_fields \<lparr>Text = ''[request_definition]''\<rparr>\<rparr>"

definition rule_document :: "nat \<Rightarrow> string \<Rightarrow> string list \<Rightarrow> DocumentSnapshot" where
  "rule_document n ptype rule =
     \<lparr>Ref = \<lparr>Parent = ''casbin'', ID = AutoId n\<rparr>,
      Fields = rule_fields (savePolicyLine ptype rule)\<rparr>"

text \<open>
  An environment in which the second call of \<^verbatim>\<open>Next\<close> fails, and a document whose
  field \<^verbatim>\<open>v0\<close> holds a number.
\<close>

definition failing_iterator :: faults where
  "failing_iterator =
     \<lparr>next_err = (\<lambda>n. if n = 1 then Some (TransportError ''unavailable'') else None),
      write_err = (\<lambda>n. None), commit_err = None\<rparr>"

definition malformed_document :: DocumentSnapshot where
  "malformed_document =
     \<lparr>Ref = \<lparr>Parent = ''casbin'', ID = AutoId 7\<rparr>,
      Fields = [(''p_type'', StringValue ''p''), (''v0'', IntegerValue 42)]\<rparr>"

text \<open>
  The stored record set: for each document its collection and its fields, the identifier
  that the store assigned left out.
\<close>

definition stored_records :: "database \<Rightarrow> (string \<times> (string \<times> fs_value) list) set" where
  "stored_records db = (\<lambda>d. (Parent (Ref d), Fields d)) ` set db"

text \<open>
  The rules that a list of lines decodes to under one section and one policy type, in the
  order of the lines.
\<close>

definition decoded_rules :: "string \<Rightarrow> string \<Rightarrow> CasbinRule list \<Rightarrow> string list list" where
  "decoded_rules sec key lines =
     map loadPolicyLine_tokens (filter (\<lambda>l. take 1 (PType l) = sec \<and> PType l = key) lines)"

text \<open>
  The policy types of a section begin with the name of the section, as the authorization
  engine names them, and every rule has at most six fields, none of them empty.
\<close>

definition storable_section :: "Model \<Rightarrow> string \<Rightarrow> bool" where
  "storable_section model sec =
     (\<forall>key ast. section_of model sec key = Some ast \<longrightarrow>
        take 1 key = sec \<and> (\<forall>r \<in> set (Policy ast). length r \<le> 6 \<and> (\<forall>f \<in> set r. f \<noteq> [])))"

text \<open>
  A model whose section \<^verbatim>\<open>p\<close> holds a policy type that does not begin with \<^verbatim>\<open>p\<close>.
\<close>

definition misfiled_model :: Model where
  "misfiled_model =
     [''p'' \<mapsto> [''x'' \<mapsto> \<lparr>Key = ''x'', Value = ''sub, obj, act'', Tokens = [],
        Policy = [[''alice'', ''data1'', ''read'']]\<rparr>]]"

section \<open>The record codec: properties\<close>

lemma tokens_takeWhile:
  "loadPolicyLine_tokens line =
     takeWhile (\<lambda>s. s \<noteq> []) [V0 line, V1 line, V2 line, V3 line, V4 line, V5 line]"
  by (simp add: loadPolicyLine_tokens_def)

lemma loadPolicyLine_appends:
  assumes "PType line \<noteq> []" and "model (take 1 (PType line)) = Some am"
    and "am (PType line) = Some ast"
  shows "loadPolicyLine line model =
     Inr (model(take 1 (PType line) \<mapsto>
       am(PType line \<mapsto> ast\<lparr>Policy := Policy ast @ [loadPolicyLine_tokens line]\<rparr>)))"
  using assms by (simp add: loadPolicyLine_def Let_def)

text \<open>
  Claim C2. The rule that a record decodes to is the longest prefix of non-empty fields of
  \<open>v0\<close> to \<open>v5\<close>, whatever follows the first empty field; and this rule, also when it has
  no field at all, is appended to the policy of the assertion that the model holds under
  the first character of the type and the type. The append is the last statement of
  \<^verbatim>\<open>loadPolicyLine\<close>; it takes place when the type is not empty, as it is for every
  record that \<^verbatim>\<open>LoadPolicy\<close> decodes (lemma \<open>LoadPolicy_decodes_typed\<close>), and when the
  model holds an assertion under that section and type; without them the Go code panics.
\<close>

theorem loadPolicyLine_longest_prefix:
  assumes "PType line \<noteq> []" and "model (take 1 (PType line)) = Some am"
    and "am (PType line) = Some ast"
  shows "loadPolicyLine_tokens line =
       takeWhile (\<lambda>s. s \<noteq> []) [V0 line, V1 line, V2 line, V3 line, V4 line, V5 line]
     \<and> loadPolicyLine line model =
       Inr (model(take 1 (PType line) \<mapsto> am(PType line \<mapsto> ast\<lparr>Policy := Policy ast @
         [takeWhile (\<lambda>s. s \<noteq> []) [V0 line, V1 line, V2 line, V3 line, V4 line, V5 line]]\<rparr>)))"
  using loadPolicyLine_appends [of line model am ast] assms by (simp add: tokens_takeWhile)

theorem loadPolicyLine_longest_prefix_witness:
  "loadPolicyLine_tokens
       \<lparr>PType = ''p'', V0 = [], V1 = ''data1'', V2 = ''read'', V3 = [], V4 = [], V5 = []\<rparr> = []
   \<and> loadPolicyLine
       \<lparr>PType = ''p'', V0 = [], V1 = ''data1'', V2 = ''read'', V3 = [], V4 = [], V5 = []\<rparr>
       test_model =
     Inr (test_model(''p'' \<mapsto> [''p'' \<mapsto> p_assertion\<lparr>Policy :=
       [[''alice'', ''data1'', ''read''], [''bob'', ''data2'', ''write''], []]\<rparr>]))"
  using loadPolicyLine_longest_prefix
    [of "\<lparr>PType = ''p'', V0 = [], V1 = ''data1'', V2 = ''read'', V3 = [], V4 = [], V5 = []\<rparr>"
        test_model "[''p'' \<mapsto> p_assertion]" p_assertion]
  by (simp add: test_model_def p_assertion_def)

lemma short_list_cases:
  assumes "length (r :: 'a list) \<le> 6"
  obtains "r = []" | a where "r = [a]" | a b where "r = [a, b]"
    | a b c where "r = [a, b, c]" | a b c d where "r = [a, b, c, d]"
    | a b c d e where "r = [a, b, c, d, e]" | a b c d e f where "r = [a, b, c, d, e, f]"
proof -
  from assms have "length r = 0 \<or> length r = 1 \<or> length r = 2 \<or> length r = 3
      \<or> length r = 4 \<or> length r = 5 \<or> length r = 6"
    by arith
  then show thesis
    using that
    by (elim disjE) (auto simp: length_Suc_conv numeral_eq_Suc)
qed

lemma tokens_savePolicyLine:
  assumes "length r \<le> 6" and "\<forall>f \<in> set r. f \<noteq> []"
  shows "loadPolicyLine_tokens (savePolicyLine ptype r) = r"
  using assms(1)
proof (cases r rule: short_list_cases)
qed (use assms(2) in \<open>simp_all add: savePolicyLine_def loadPolicyLine_tokens_def\<close>)

lemma PType_savePolicyLine: "PType (savePolicyLine ptype r) = ptype"
  by (simp add: savePolicyLine_def Let_def)

text \<open>
  Claim C3. Encoding a rule of at most six non-empty fields under a policy type and decoding
  the record gives the type back, gives exactly the fields of the rule, and appends the rule
  under the section that is the first character of the type. The type has a first
  character and the model holds an assertion under that section and type: without them the
  Go code of the decoder panics.
\<close>

theorem decode_encode_roundtrip:
  assumes "length r \<le> 6" and "\<forall>f \<in> set r. f \<noteq> []"
    and "ptype \<noteq> []" and "model (take 1 ptype) = Some am" and "am ptype = Some ast"
  shows "PType (savePolicyLine ptype r) = ptype
     \<and> loadPolicyLine_tokens (savePolicyLine ptype r) = r
     \<and> loadPolicyLine (savePolicyLine ptype r) model =
         Inr (model(take 1 ptype \<mapsto> am(ptype \<mapsto> ast\<lparr>Policy := Policy ast @ [r]\<rparr>)))"
  using loadPolicyLine_appends [of "savePolicyLine ptype r" model am ast] assms
  by (simp add: PType_savePolicyLine tokens_savePolicyLine)

theorem decode_encode_roundtrip_witness:
  "PType (savePolicyLine ''g'' [''bob'', ''data2_admin'']) = ''g''
   \<and> loadPolicyLine_tokens (savePolicyLine ''g'' [''bob'', ''data2_admin''])
       = [''bob'', ''data2_admin'']
   \<and> loadPolicyLine (savePolicyLine ''g'' [''bob'', ''data2_admin'']) test_model =
       Inr (test_model(''g'' \<mapsto> [''g'' \<mapsto> g_assertion\<lparr>Policy :=
         [[''alice'', ''data2_admin''], [''bob'', ''data2_admin'']]\<rparr>]))"
  using decode_encode_roundtrip
    [of "[''bob'', ''data2_admin'']" "''g''" test_model "[''g'' \<mapsto> g_assertion]" g_assertion]
  by (simp add: test_model_def g_assertion_def)

section \<open>The filter planner: properties\<close>

lemma wrap64_id: "- (2 ^ 63) \<le> x \<Longrightarrow> x < 2 ^ 63 \<Longrightarrow> wrap64 x = x"
  by (simp add: wrap64_def)

lemma selector_block_eval:
  assumes "- (2 ^ 63) \<le> fi" "fi < 2 ^ 63" "int (length fvs) < 2 ^ 63 - 5" "0 \<le> k" "k \<le> 5"
  shows "selector_block k name fi fvs sel =
     Inr (if constrained fi fvs k then AList.update name (fvs ! nat (k - fi)) sel else sel)"
proof (cases "fi \<le> k")
  case False
  then show ?thesis by (simp add: selector_block_def constrained_def)
next
  case True
  have sum: "go_add fi (int (length fvs)) = fi + int (length fvs)"
    unfolding go_add_def using assms True by (intro wrap64_id) linarith+
  show ?thesis
  proof (cases "k < fi + int (length fvs)")
    case False
    then show ?thesis by (simp add: selector_block_def constrained_def sum)
  next
    case inside: True
    have diff: "go_sub k fi = k - fi"
      unfolding go_sub_def using assms True inside by (intro wrap64_id) linarith+
    have "go_index fvs (k - fi) = Inr (fvs ! nat (k - fi))"
      using True inside by (simp add: go_index_def)
    then show ?thesis
      using True inside by (simp add: selector_block_def constrained_def sum diff)
  qed
qed

lemma update_fresh: "k \<notin> fst ` set al \<Longrightarrow> AList.update k v al = al @ [(k, v)]"
  by (induction al) auto

lemma fst_entry: "(x, v) \<in> set (entry name k fi fvs) \<Longrightarrow> x = name"
  by (auto simp: entry_def split: if_splits)

lemma selector_block_append:
  assumes "- (2 ^ 63) \<le> fi" "fi < 2 ^ 63" "int (length fvs) < 2 ^ 63 - 5"
    and "0 \<le> k" "k \<le> 5" and "name \<notin> fst ` set sel"
  shows "selector_block k name fi fvs sel = Inr (sel @ entry name k fi fvs)"
  using assms by (simp add: selector_block_eval entry_def update_fresh)

lemma filter_selector_eval:
  assumes r: "- (2 ^ 63) \<le> fi" "fi < 2 ^ 63" "int (length fvs) < 2 ^ 63 - 5"
  shows "filter_selector ptype fi fvs =
     Inr ([(''p_type'', ptype)] @ entry ''v0'' 0 fi fvs @ entry ''v1'' 1 fi fvs
          @ entry ''v2'' 2 fi fvs @ entry ''v3'' 3 fi fvs @ entry ''v4'' 4 fi fvs
          @ entry ''v5'' 5 fi fvs)"
proof -
  let ?s0 = "[(''p_type'', ptype)] @ entry ''v0'' 0 fi fvs"
  let ?s1 = "?s0 @ entry ''v1'' 1 fi fvs"
  let ?s2 = "?s1 @ entry ''v2'' 2 fi fvs"
  let ?s3 = "?s2 @ entry ''v3'' 3 fi fvs"
  let ?s4 = "?s3 @ entry ''v4'' 4 fi fvs"
  have b0: "selector_block 0 ''v0'' fi fvs (AList.update ''p_type'' ptype []) = Inr ?s0"
    using selector_block_append [OF r, of 0 "''v0''" "[(''p_type'', ptype)]"] by simp
  have b1: "selector_block 1 ''v1'' fi fvs ?s0 = Inr ?s1"
    by (rule selector_block_append [OF r]) (auto dest: fst_entry)
  have b2: "selector_block 2 ''v2'' fi fvs ?s1 = Inr ?s2"
    by (rule selector_block_append [OF r]) (auto dest: fst_entry)
  have b3: "selector_block 3 ''v3'' fi fvs ?s2 = Inr ?s3"
    by (rule selector_block_append [OF r]) (auto dest: fst_entry)
  have b4: "selector_block 4 ''v4'' fi fvs ?s3 = Inr ?s4"
    by (rule selector_block_append [OF r]) (auto dest: fst_entry)
  have b5: "selector_block 5 ''v5'' fi fvs ?s4 = Inr (?s4 @ entry ''v5'' 5 fi fvs)"
    by (rule selector_block_append [OF r]) (auto dest: fst_entry)
  have "filter_selector ptype fi fvs = Inr (?s4 @ entry ''v5'' 5 fi fvs)"
    unfolding filter_selector_def
    by (simp only: b0 b1 b2 b3 b4 b5 bind_sum_def sum.case)
  then show ?thesis
    by simp
qed

lemma filters_where_all:
  "set (q_filters (where_all q kvs)) =
     set (q_filters q) \<union> (\<lambda>(k, v). (k, EqualTo, v)) ` set kvs"
  by (induction q kvs rule: where_all.induct) (auto simp: Where_def)

lemma collection_where_all: "q_collection (where_all q kvs) = q_collection q"
  by (induction q kvs rule: where_all.induct) (auto simp: Where_def)

lemma entries_set:
  "set (entry ''v0'' 0 fi fvs @ entry ''v1'' 1 fi fvs @ entry ''v2'' 2 fi fvs
        @ entry ''v3'' 3 fi fvs @ entry ''v4'' 4 fi fvs @ entry ''v5'' 5 fi fvs) =
     {(field_names ! k, fvs ! nat (int k - fi)) | k. k < 6 \<and> constrained fi fvs (int k)}"
  (is "?L = ?R")
proof -
  have "?L = (\<Union>k \<in> {0, 1, 2, 3, 4, 5 :: nat}. set (entry (field_names ! k) (int k) fi fvs))"
    by (simp add: field_names_def Un_assoc)
  also have "{0, 1, 2, 3, 4, 5 :: nat} = {..<6}"
    by auto
  also have "(\<Union>k \<in> {..<6}. set (entry (field_names ! k) (int k) fi fvs)) = ?R"
    by (auto simp: entry_def split: if_splits)
  finally show ?thesis .
qed


text \<open>
  Claim C1. The query of \<^verbatim>\<open>RemoveFilteredPolicy\<close> is built, for every order in which the
  range loop visits the selector, and its filters are: that the type is greater than the
  empty string, that the type equals the given type, and, for each field position \<open>k\<close> below
  six that lies in the window from \<open>fieldIndex\<close> with a non-empty value supplied for it, that
  field \<open>k\<close> equals that value; nothing else. The field index is a Go \<^verbatim>\<open>int\<close> and the
  number of values is that of a slice that fits the address space.
\<close>

theorem RemoveFilteredPolicy_constraints:
  assumes "- (2 ^ 63) \<le> fieldIndex" and "fieldIndex < 2 ^ 63"
    and "int (length fieldValues) < 2 ^ 63 - 5"
    and "\<forall>sel. set (order sel) = set sel"
  shows "\<exists>q. RemoveFilteredPolicy_query order a ptype fieldIndex fieldValues = Inr q
    \<and> q_collection q = collection a
    \<and> set (q_filters q) =
        {(''p_type'', GreaterThan, []), (''p_type'', EqualTo, ptype)}
        \<union> {(field_names ! k, EqualTo, fieldValues ! nat (int k - fieldIndex)) | k.
             k < 6 \<and> fieldIndex \<le> int k \<and> int k < fieldIndex + int (length fieldValues)
             \<and> fieldValues ! nat (int k - fieldIndex) \<noteq> []}"
proof -
  let ?es = "entry ''v0'' 0 fieldIndex fieldValues @ entry ''v1'' 1 fieldIndex fieldValues
      @ entry ''v2'' 2 fieldIndex fieldValues @ entry ''v3'' 3 fieldIndex fieldValues
      @ entry ''v4'' 4 fieldIndex fieldValues @ entry ''v5'' 5 fieldIndex fieldValues"
  let ?sel = "[(''p_type'', ptype)] @ ?es"
  let ?q = "where_all (newQuery a) (order ?sel)"
  have run: "RemoveFilteredPolicy_query order a ptype fieldIndex fieldValues = Inr ?q"
    using assms(1-3)
    by (simp only: RemoveFilteredPolicy_query_def filter_selector_eval bind_sum_def sum.case)
  have "set (order ?sel) = set ?sel"
    using assms(4) by blast
  then have "set (q_filters ?q) =
      {(''p_type'', GreaterThan, [])} \<union> (\<lambda>(k, v). (k, EqualTo, v)) ` set ?sel"
    by (simp only: filters_where_all) (simp add: newQuery_def Where_def Collection_query_def)
  also have "set ?sel = insert (''p_type'', ptype)
      {(field_names ! k, fieldValues ! nat (int k - fieldIndex)) | k.
         k < 6 \<and> constrained fieldIndex fieldValues (int k)}"
  proof -
    have "set ?sel = insert (''p_type'', ptype) (set ?es)"
      by simp
    then show ?thesis
      by (simp only: entries_set)
  qed
  finally have "set (q_filters ?q) =
        {(''p_type'', GreaterThan, []), (''p_type'', EqualTo, ptype)}
        \<union> {(field_names ! k, EqualTo, fieldValues ! nat (int k - fieldIndex)) | k.
             k < 6 \<and> fieldIndex \<le> int k \<and> int k < fieldIndex + int (length fieldValues)
             \<and> fieldValues ! nat (int k - fieldIndex) \<noteq> []}"
    unfolding constrained_def by (auto simp: image_iff)
  moreover have "q_collection ?q = collection a"
    by (simp add: collection_where_all newQuery_def Where_def Collection_query_def)
  ultimately show ?thesis
    using run by blast
qed

theorem RemoveFilteredPolicy_constraints_witness:
  "\<exists>q. RemoveFilteredPolicy_query rev \<lparr>collection = ''casbin''\<rparr> ''p'' (- 2) [''x'', ''y'', ''z'']
          = Inr q
    \<and> q_collection q = ''casbin''
    \<and> set (q_filters q) =
        {(''p_type'', GreaterThan, []), (''p_type'', EqualTo, ''p''), (''v0'', EqualTo, ''z'')}"
proof -
  have six: "\<And>k::nat. k < 6 \<longleftrightarrow> k = 0 \<or> k = 1 \<or> k = 2 \<or> k = 3 \<or> k = 4 \<or> k = 5"
    by arith
  have "{(field_names ! k, EqualTo, [''x'', ''y'', ''z''] ! nat (int k - (- 2))) | k.
          k < 6 \<and> - 2 \<le> int k \<and> int k < - 2 + int (length [''x'', ''y'', ''z''])
          \<and> [''x'', ''y'', ''z''] ! nat (int k - (- 2)) \<noteq> []}
      = {(''v0'', EqualTo, ''z'')}"
    unfolding six by (auto simp: field_names_def)
  then show ?thesis
    using RemoveFilteredPolicy_constraints
      [of "- 2" "[''x'', ''y'', ''z'']" rev "\<lparr>collection = ''casbin''\<rparr>" "''p''"]
    by (simp add: insert_commute)
qed

section \<open>The store and its transactions: properties\<close>

lemma str_less_empty: "str_less [] s = (s \<noteq> [])"
  by (cases s) simp_all

lemma matches_newQuery: "matches (newQuery a) d = policy_record a d"
  by (auto simp: matches_def newQuery_def Where_def Collection_query_def satisfies_def
      policy_record_def str_less_empty split: option.splits fs_value.splits)

lemma iterate_no_faults: "iterate (\<lambda>n. None) n ds = map Inr ds"
  by (induction ds arbitrary: n) simp_all

lemma Documents_no_faults: "Documents no_faults db q = map Inr (filter (matches q) db)"
  by (simp add: Documents_def no_faults_def iterate_no_faults)

lemma delete_all_db: "delete_all fl it tx = (r, tx') \<Longrightarrow> tx_db tx' = tx_db tx"
  by (induction fl it tx rule: delete_all.induct)
    (auto simp: tx_Delete_def tx_write_def split: option.splits prod.splits)

lemma delete_all_iterate:
  "delete_all fl (iterate f n ds) tx = (r, tx') \<Longrightarrow>
     (\<exists>k \<le> length ds. tx_writes tx' = tx_writes tx @ map (\<lambda>d. DeleteWrite (Ref d)) (take k ds))
     \<and> (r = None \<longrightarrow> tx_writes tx' = tx_writes tx @ map (\<lambda>d. DeleteWrite (Ref d)) ds)"
proof (induction ds arbitrary: n tx)
  case Nil
  then show ?case by (cases "f n") auto
next
  case (Cons d ds)
  show ?case
  proof (cases "f n")
    case (Some e)
    with Cons.prems have "r = Some e" and "tx' = tx"
      by simp_all
    then show ?thesis
      by (intro conjI exI [of _ 0]) simp_all
  next
    case None
    show ?thesis
    proof (cases "write_err fl (length (tx_writes tx))")
      case (Some e)
      with None Cons.prems have "r = Some e" and "tx' = tx"
        by (simp_all add: tx_Delete_def tx_write_def)
      then show ?thesis
        by (intro conjI exI [of _ 0]) simp_all
    next
      case nw: None
      let ?tx1 = "tx\<lparr>tx_writes := tx_writes tx @ [DeleteWrite (Ref d)]\<rparr>"
      from None nw Cons.prems have "delete_all fl (iterate f (Suc n) ds) ?tx1 = (r, tx')"
        by (simp add: tx_Delete_def tx_write_def)
      from Cons.IH [OF this] obtain k where k: "k \<le> length ds"
        "tx_writes tx' = tx_writes ?tx1 @ map (\<lambda>d. DeleteWrite (Ref d)) (take k ds)"
        and all: "r = None \<longrightarrow> tx_writes tx' = tx_writes ?tx1 @ map (\<lambda>d. DeleteWrite (Ref d)) ds"
        by blast
      have "Suc k \<le> length (d # ds)
          \<and> tx_writes tx' = tx_writes tx @ map (\<lambda>d. DeleteWrite (Ref d)) (take (Suc k) (d # ds))"
        using k by simp
      then show ?thesis
        using all by (intro conjI exI [of _ "Suc k"]) simp_all
    qed
  qed
qed

lemma tx_write_no_faults:
  "tx_write no_faults tx w = (None, tx\<lparr>tx_writes := tx_writes tx @ [w]\<rparr>)"
  by (simp add: tx_write_def no_faults_def)

lemma delete_all_no_faults:
  "delete_all no_faults (map Inr ds) tx =
     (None, tx\<lparr>tx_writes := tx_writes tx @ map (\<lambda>d. DeleteWrite (Ref d)) ds\<rparr>)"
  by (induction ds arbitrary: tx) (simp_all add: tx_Delete_def tx_write_no_faults)

lemma ids_in_use_create:
  "ids_in_use (tx\<lparr>tx_writes := tx_writes tx @ [CreateWrite \<lparr>Parent = c, ID = i\<rparr> fs]\<rparr>)
     = ids_in_use tx @ [i]"
  by (simp add: ids_in_use_def)

lemma create_all_writes:
  "create_all fl c lines tx = (None, tx') \<Longrightarrow>
     tx_db tx' = tx_db tx \<and>
     tx_writes tx' = tx_writes tx
       @ map (\<lambda>d. CreateWrite (Ref d) (Fields d)) (new_documents c (ids_in_use tx) lines)"
proof (induction lines arbitrary: tx)
  case Nil
  then show ?case by simp
next
  case (Cons line lines)
  let ?r = "\<lparr>Parent = c, ID = fresh_id (ids_in_use tx)\<rparr>"
  let ?tx1 = "tx\<lparr>tx_writes := tx_writes tx @ [CreateWrite ?r (rule_fields line)]\<rparr>"
  have nd: "NewDoc tx c = ?r"
    by (simp add: NewDoc_def ids_in_use_def)
  from Cons.prems have "create_all fl c lines ?tx1 = (None, tx')"
    by (auto simp: nd tx_Create_def tx_write_def split: option.splits)
  from Cons.IH [OF this] show ?case
    by (simp add: ids_in_use_create)
qed

lemma create_all_no_faults:
  "create_all no_faults c lines tx =
     (None, tx\<lparr>tx_writes := tx_writes tx
        @ map (\<lambda>d. CreateWrite (Ref d) (Fields d)) (new_documents c (ids_in_use tx) lines)\<rparr>)"
proof (induction lines arbitrary: tx)
  case Nil
  then show ?case by simp
next
  case (Cons line lines)
  have nd: "NewDoc tx c = \<lparr>Parent = c, ID = fresh_id (ids_in_use tx)\<rparr>"
    by (simp add: NewDoc_def ids_in_use_def)
  show ?case
    by (simp add: nd tx_Create_def tx_write_no_faults Cons.IH ids_in_use_create)
qed

lemma apply_deletes:
  "foldl apply_write db (map (\<lambda>d. DeleteWrite (Ref d)) ds) =
     filter (\<lambda>d. Ref d \<notin> Ref ` set ds) db"
  by (induction ds arbitrary: db) (auto intro: filter_cong)

lemma apply_creates:
  "foldl apply_write db (map (\<lambda>d. CreateWrite (Ref d) (Fields d)) news) = db @ news"
  by (induction news arbitrary: db) simp_all

lemma apply_deletes_selected:
  assumes "distinct (map Ref db)"
  shows "foldl apply_write db (map (\<lambda>d. DeleteWrite (Ref d)) (filter P db))
     = filter (\<lambda>d. \<not> P d) db"
proof -
  have "filter (\<lambda>d. Ref d \<notin> Ref ` set (filter P db)) db = filter (\<lambda>d. \<not> P d) db"
    using assms by (intro filter_cong) (auto simp: distinct_map inj_on_def)
  then show ?thesis
    by (simp only: apply_deletes)
qed

lemma filter_by_ref:
  "distinct (map Ref db) \<Longrightarrow>
     filter (\<lambda>d. Ref d \<notin> Ref ` set (filter P db)) db = filter (\<lambda>d. \<not> P d) db"
  by (rule filter_cong) (auto simp: distinct_map inj_on_def)


lemma auto_num_le_foldr: "i \<in> set ids \<Longrightarrow> auto_num i \<le> foldr (\<lambda>i m. max (auto_num i) m) ids 0"
  by (induction ids) auto

lemma fresh_id_notin: "fresh_id ids \<notin> set ids"
proof
  assume "fresh_id ids \<in> set ids"
  then have "auto_num (fresh_id ids) \<le> foldr (\<lambda>i m. max (auto_num i) m) ids 0"
    by (rule auto_num_le_foldr)
  then show False
    by (simp add: fresh_id_def)
qed

lemma Fields_new_documents: "map Fields (new_documents c used lines) = map rule_fields lines"
  by (induction lines arbitrary: used) simp_all

lemma Parent_new_documents: "d \<in> set (new_documents c used lines) \<Longrightarrow> Parent (Ref d) = c"
  by (induction lines arbitrary: used) auto

lemma ID_new_documents: "d \<in> set (new_documents c used lines) \<Longrightarrow> ID (Ref d) \<notin> set used"
proof (induction lines arbitrary: used)
  case Nil
  then show ?case by simp
next
  case (Cons line lines)
  from Cons.prems consider "d = \<lparr>Ref = \<lparr>Parent = c, ID = fresh_id used\<rparr>, Fields = rule_fields line\<rparr>"
    | "d \<in> set (new_documents c (used @ [fresh_id used]) lines)"
    by auto
  then show ?case
  proof cases
    case 1
    then show ?thesis by (simp add: fresh_id_notin)
  next
    case 2
    from Cons.IH [OF this] show ?thesis by simp
  qed
qed

lemma distinct_new_documents: "distinct (map Ref (new_documents c used lines))"
proof (induction lines arbitrary: used)
  case Nil
  then show ?case by simp
next
  case (Cons line lines)
  have "\<lparr>Parent = c, ID = fresh_id used\<rparr> \<notin> Ref ` set (new_documents c (used @ [fresh_id used]) lines)"
  proof
    assume "\<lparr>Parent = c, ID = fresh_id used\<rparr> \<in> Ref ` set (new_documents c (used @ [fresh_id used]) lines)"
    then obtain d where d: "d \<in> set (new_documents c (used @ [fresh_id used]) lines)"
      and "Ref d = \<lparr>Parent = c, ID = fresh_id used\<rparr>"
      by auto
    then have "ID (Ref d) = fresh_id used"
      by simp
    with ID_new_documents [OF d] show False
      by simp
  qed
  with Cons.IH show ?case
    by simp
qed

lemma RunTransaction_cases:
  "(\<exists>e. RunTransaction fl db f = (Some e, db))
   \<or> (\<exists>tx. f \<lparr>tx_db = db, tx_writes = []\<rparr> = (None, tx)
         \<and> RunTransaction fl db f = (None, foldl apply_write db (tx_writes tx)))"
proof (cases "f \<lparr>tx_db = db, tx_writes = []\<rparr>")
  case (Pair r tx)
  show ?thesis
  proof (cases r)
    case (Some e)
    with Pair show ?thesis by (simp add: RunTransaction_def)
  next
    case None
    with Pair show ?thesis by (cases "commit_err fl") (simp_all add: RunTransaction_def)
  qed
qed

lemma RunTransaction_no_faults:
  "f \<lparr>tx_db = db, tx_writes = []\<rparr> = (None, tx) \<Longrightarrow>
     RunTransaction no_faults db f = (None, foldl apply_write db (tx_writes tx))"
  by (simp add: RunTransaction_def no_faults_def)

lemma delete_transaction_cases:
  assumes "distinct (map Ref db)"
  shows "(\<exists>e. RunTransaction fl db (\<lambda>tx. delete_all fl (tx_Documents fl tx q) tx) = (Some e, db))
    \<or> RunTransaction fl db (\<lambda>tx. delete_all fl (tx_Documents fl tx q) tx)
       = (None, filter (\<lambda>d. \<not> matches q d) db)"
proof -
  let ?f = "\<lambda>tx. delete_all fl (tx_Documents fl tx q) tx"
  from RunTransaction_cases [of fl db ?f]
  consider e where "RunTransaction fl db ?f = (Some e, db)"
    | tx where "?f \<lparr>tx_db = db, tx_writes = []\<rparr> = (None, tx)"
        "RunTransaction fl db ?f = (None, foldl apply_write db (tx_writes tx))"
    by blast
  then show ?thesis
  proof cases
    case 1
    then show ?thesis by blast
  next
    case 2
    from 2(1) have "tx_writes tx = map (\<lambda>d. DeleteWrite (Ref d)) (filter (matches q) db)"
      using delete_all_iterate [of fl "next_err fl" 0 "filter (matches q) db"
          "\<lparr>tx_db = db, tx_writes = []\<rparr>" None tx]
      by (simp add: tx_Documents_def Documents_def)
    with 2(2) show ?thesis
      by (simp only: apply_deletes_selected [OF assms]) simp
  qed
qed

lemma delete_transaction_no_faults:
  assumes "distinct (map Ref db)"
  shows "RunTransaction no_faults db (\<lambda>tx. delete_all no_faults (tx_Documents no_faults tx q) tx)
       = (None, filter (\<lambda>d. \<not> matches q d) db)"
proof -
  have "delete_all no_faults (tx_Documents no_faults \<lparr>tx_db = db, tx_writes = []\<rparr> q)
      \<lparr>tx_db = db, tx_writes = []\<rparr>
    = (None, \<lparr>tx_db = db, tx_writes = map (\<lambda>d. DeleteWrite (Ref d)) (filter (matches q) db)\<rparr>)"
    by (simp add: tx_Documents_def Documents_no_faults delete_all_no_faults)
  from RunTransaction_no_faults [of "\<lambda>tx. delete_all no_faults (tx_Documents no_faults tx q) tx", OF this]
  show ?thesis
    by (simp only: apply_deletes_selected [OF assms] Transaction.simps)
qed

lemma SavePolicy_cases:
  assumes "distinct (map Ref db)"
  shows "(\<exists>e. SavePolicy fl a pkeys gkeys db model = (Some e, db))
    \<or> SavePolicy fl a pkeys gkeys db model = (None, saved_db a db (saved_lines model pkeys gkeys))"
proof -
  let ?lines = "saved_lines model pkeys gkeys"
  let ?f = "\<lambda>tx. case delete_all fl (tx_Documents fl tx (newQuery a)) tx of
             (Some err, tx') \<Rightarrow> (Some err, tx')
           | (None, tx') \<Rightarrow> create_all fl (collection a) ?lines tx'"
  let ?tx0 = "\<lparr>tx_db = db, tx_writes = []\<rparr>"
  have sp: "SavePolicy fl a pkeys gkeys db model = RunTransaction fl db ?f"
    unfolding SavePolicy_def saved_lines_def Let_def by (rule refl)
  from RunTransaction_cases [of fl db ?f]
  consider e where "RunTransaction fl db ?f = (Some e, db)"
    | tx where "?f ?tx0 = (None, tx)"
        "RunTransaction fl db ?f = (None, foldl apply_write db (tx_writes tx))"
    by blast
  then show ?thesis
  proof cases
    case 1
    then show ?thesis using sp by simp
  next
    case 2
    obtain r1 tx1 where d: "delete_all fl (tx_Documents fl ?tx0 (newQuery a)) ?tx0 = (r1, tx1)"
      by (cases "delete_all fl (tx_Documents fl ?tx0 (newQuery a)) ?tx0")
    with 2(1) have r1: "r1 = None" and c: "create_all fl (collection a) ?lines tx1 = (None, tx)"
      by (auto split: option.splits)
    have w1: "tx_writes tx1 = map (\<lambda>d. DeleteWrite (Ref d)) (filter (policy_record a) db)"
      using delete_all_iterate [of fl "next_err fl" 0 "filter (matches (newQuery a)) db" ?tx0 r1 tx1]
        d r1
      by (simp add: tx_Documents_def Documents_def matches_newQuery cong: filter_cong)
    have db1: "tx_db tx1 = db"
      using delete_all_db [OF d] by simp
    have use: "ids_in_use tx1 =
        map (\<lambda>d. ID (Ref d)) db @ map (\<lambda>d. ID (Ref d)) (filter (policy_record a) db)"
      by (simp add: ids_in_use_def w1 db1 comp_def)
    have "tx_writes tx = map (\<lambda>d. DeleteWrite (Ref d)) (filter (policy_record a) db)
        @ map (\<lambda>d. CreateWrite (Ref d) (Fields d)) (new_documents (collection a) (ids_in_use tx1) ?lines)"
      using create_all_writes [OF c] w1 by simp
    then have "foldl apply_write db (tx_writes tx) = saved_db a db ?lines"
      by (simp only: foldl_append apply_deletes_selected [OF assms] apply_creates use saved_db_def)
    with 2(2) sp show ?thesis
      by simp
  qed
qed

lemma SavePolicy_no_faults:
  assumes "distinct (map Ref db)"
  shows "SavePolicy no_faults a pkeys gkeys db model
     = (None, saved_db a db (saved_lines model pkeys gkeys))"
proof -
  let ?lines = "saved_lines model pkeys gkeys"
  let ?tx0 = "\<lparr>tx_db = db, tx_writes = []\<rparr>"
  let ?tx1 = "\<lparr>tx_db = db, tx_writes = map (\<lambda>d. DeleteWrite (Ref d)) (filter (policy_record a) db)\<rparr>"
  let ?f = "\<lambda>tx. case delete_all no_faults (tx_Documents no_faults tx (newQuery a)) tx of
             (Some err, tx') \<Rightarrow> (Some err, tx')
           | (None, tx') \<Rightarrow> create_all no_faults (collection a) ?lines tx'"
  have d: "delete_all no_faults (tx_Documents no_faults ?tx0 (newQuery a)) ?tx0 = (None, ?tx1)"
    by (simp add: tx_Documents_def Documents_no_faults delete_all_no_faults matches_newQuery
        cong: filter_cong)
  have use: "ids_in_use ?tx1 =
      map (\<lambda>d. ID (Ref d)) db @ map (\<lambda>d. ID (Ref d)) (filter (policy_record a) db)"
    by (simp add: ids_in_use_def comp_def)
  have "?f ?tx0 = (None, ?tx1\<lparr>tx_writes := tx_writes ?tx1
        @ map (\<lambda>d. CreateWrite (Ref d) (Fields d))
            (new_documents (collection a) (ids_in_use ?tx1) ?lines)\<rparr>)"
    by (simp only: d create_all_no_faults prod.case option.case)
  from RunTransaction_no_faults [of ?f, OF this]
  have "RunTransaction no_faults db ?f = (None, saved_db a db ?lines)"
    by (simp only: use saved_db_def Transaction.simps Transaction.update_convs foldl_append
        apply_deletes_selected [OF assms] apply_creates)
  then show ?thesis
    unfolding SavePolicy_def saved_lines_def Let_def .
qed

lemma map_of_rule_fields:
  "map_of (rule_fields r) ''p_type'' = Some (StringValue (PType r))"
  "map_of (rule_fields r) ''v0'' = Some (StringValue (V0 r))"
  "map_of (rule_fields r) ''v1'' = Some (StringValue (V1 r))"
  "map_of (rule_fields r) ''v2'' = Some (StringValue (V2 r))"
  "map_of (rule_fields r) ''v3'' = Some (StringValue (V3 r))"
  "map_of (rule_fields r) ''v4'' = Some (StringValue (V4 r))"
  "map_of (rule_fields r) ''v5'' = Some (StringValue (V5 r))"
  by (simp_all add: rule_fields_def)

lemma DataTo_rule_fields: "DataTo \<lparr>Ref = r, Fields = rule_fields line\<rparr> = Inr line"
  by (simp add: DataTo_def string_field_def bind_sum_def map_of_rule_fields)

text \<open>
  Every record that \<^verbatim>\<open>LoadPolicy\<close> decodes, and so every record that it passes to
  \<^verbatim>\<open>loadPolicyLine\<close>, has a type that is not empty: the base query selects no other.
\<close>

lemma iterate_members: "Inr d \<in> set (iterate f n ds) \<Longrightarrow> d \<in> set ds"
  by (induction ds arbitrary: n) (auto split: option.splits)

lemma DataTo_PType:
  assumes "DataTo d = Inr r" and "policy_record a d"
  shows "PType r \<noteq> []"
proof -
  from assms(2) obtain s where s: "map_of (Fields d) ''p_type'' = Some (StringValue s)" "s \<noteq> []"
    by (auto simp: policy_record_def split: option.splits fs_value.splits)
  then have "string_field (Fields d) ''p_type'' = Inr s"
    by (simp add: string_field_def)
  with assms(1) have "PType r = s"
    by (auto simp: DataTo_def bind_sum_def split: sum.splits)
  with s(2) show ?thesis
    by simp
qed

lemma LoadPolicy_read_types:
  assumes "LoadPolicy_read it acc = Inr rules"
    and "\<And>d. Inr d \<in> set it \<Longrightarrow> policy_record a d"
    and "\<And>r. r \<in> set acc \<Longrightarrow> PType r \<noteq> []"
    and "r \<in> set rules"
  shows "PType r \<noteq> []"
  using assms
proof (induction it acc rule: LoadPolicy_read.induct)
  case (1 rules')
  then show ?case by simp
next
  case (2 err it rules')
  then show ?case by simp
next
  case (3 doc it rules')
  from "3.prems"(1) obtain rule where rule: "DataTo doc = Inr rule"
    and rest: "LoadPolicy_read it (rules' @ [rule]) = Inr rules"
    by (auto split: sum.splits)
  have "PType rule \<noteq> []"
    using rule "3.prems"(2) by (intro DataTo_PType [of doc rule a]) simp_all
  then show ?case
    using "3.IH" [OF rule rest] "3.prems"(2,3,4) by auto
qed

lemma LoadPolicy_decodes_typed:
  assumes "LoadPolicy_read (Documents fl db (newQuery a)) [] = Inr rules" and "r \<in> set rules"
  shows "PType r \<noteq> []"
proof (rule LoadPolicy_read_types [OF assms(1) _ _ assms(2)])
  fix d
  assume "Inr d \<in> set (Documents fl db (newQuery a))"
  then have "d \<in> set (filter (matches (newQuery a)) db)"
    unfolding Documents_def by (rule iterate_members)
  then show "policy_record a d"
    by (simp add: matches_newQuery)
qed simp

lemma matches_RemovePolicy_query:
  "PType line \<noteq> [] \<Longrightarrow> matches (RemovePolicy_query a line) d = rule_match a line d"
  by (auto simp: matches_def RemovePolicy_query_def newQuery_def Where_def Collection_query_def
      satisfies_def rule_match_def str_less_empty split: option.splits fs_value.splits)

text \<open>
  Claim C5, as amended. For a policy type that is not empty, \<^verbatim>\<open>RemovePolicy\<close> encodes the
  rule and, when nothing fails, returns no error and leaves exactly the documents that do
  not match: a document matches when it lies in the adapter's collection and its type and
  its fields 0 to 4 are the strings of the encoded rule, field 5 being free. So it succeeds
  also when nothing matches. In every environment it either does the same or returns an
  error and leaves the database as it was.
\<close>

theorem RemovePolicy_deletes_matching:
  assumes "distinct (map Ref db)" and "ptype \<noteq> []"
  shows "RemovePolicy no_faults a db sec ptype rule =
       (None, filter (\<lambda>d. \<not> rule_match a (savePolicyLine ptype rule) d) db)
     \<and> (\<forall>fl. RemovePolicy fl a db sec ptype rule =
             (None, filter (\<lambda>d. \<not> rule_match a (savePolicyLine ptype rule) d) db)
           \<or> (\<exists>e. RemovePolicy fl a db sec ptype rule = (Some e, db)))"
proof -
  let ?line = "savePolicyLine ptype rule"
  have m: "matches (RemovePolicy_query a ?line) = rule_match a ?line"
    using assms(2) by (intro ext matches_RemovePolicy_query) (simp add: PType_savePolicyLine)
  have "RemovePolicy no_faults a db sec ptype rule =
       (None, filter (\<lambda>d. \<not> rule_match a ?line d) db)"
    using delete_transaction_no_faults [OF assms(1), of "RemovePolicy_query a ?line"]
    by (simp add: RemovePolicy_def Let_def m)
  moreover have "RemovePolicy fl a db sec ptype rule =
             (None, filter (\<lambda>d. \<not> rule_match a ?line d) db)
           \<or> (\<exists>e. RemovePolicy fl a db sec ptype rule = (Some e, db))" for fl
    using delete_transaction_cases [OF assms(1), of fl "RemovePolicy_query a ?line"]
    by (auto simp: RemovePolicy_def Let_def m)
  ultimately show ?thesis
    by blast
qed

theorem RemovePolicy_deletes_matching_witness:
  "RemovePolicy no_faults NewAdapter
     [rule_document 1 ''p'' [''alice'', ''data1'', ''write''],
      rule_document 2 ''p'' [''alice'', ''data1'', ''write'', [], [], ''extra''],
      rule_document 3 ''p'' [''alice'', ''data1'', ''read'']]
     ''p'' ''p'' [''alice'', ''data1'', ''write'']
   = (None, [rule_document 3 ''p'' [''alice'', ''data1'', ''read'']])"
  using RemovePolicy_deletes_matching
    [of "[rule_document 1 ''p'' [''alice'', ''data1'', ''write''],
      rule_document 2 ''p'' [''alice'', ''data1'', ''write'', [], [], ''extra''],
      rule_document 3 ''p'' [''alice'', ''data1'', ''read'']]" "''p''" NewAdapter "''p''"
      "[''alice'', ''data1'', ''write'']"]
  by (simp add: rule_document_def rule_match_def NewAdapter_def NewAdapterWithConfig_def
      collectionName_def defaultCollectionName_def savePolicyLine_def rule_fields_def)

text \<open>
  Claim C5 as stated fails for the empty policy type: the record that \<^verbatim>\<open>AddPolicy\<close>
  creates for such a rule has the encoded type and the encoded fields 0 to 4, and
  \<^verbatim>\<open>RemovePolicy\<close> of the same rule returns no error and leaves it in place.
\<close>

theorem RemovePolicy_empty_type_counterexample:
  "rule_match NewAdapter (savePolicyLine [] [''alice'', ''data1'', ''read'']) untyped_record
   \<and> RemovePolicy no_faults NewAdapter [untyped_record] ''p'' [] [''alice'', ''data1'', ''read'']
       = (None, [untyped_record])"
proof -
  have "\<not> matches (RemovePolicy_query NewAdapter (savePolicyLine [] [''alice'', ''data1'', ''read'']))
      untyped_record"
    by (simp add: matches_def RemovePolicy_query_def newQuery_def Where_def Collection_query_def
        satisfies_def untyped_record_def rule_fields_def savePolicyLine_def)
  then show ?thesis
    using delete_transaction_no_faults [of "[untyped_record]"
        "RemovePolicy_query NewAdapter (savePolicyLine [] [''alice'', ''data1'', ''read''])"]
    by (simp add: RemovePolicy_def Let_def rule_match_def untyped_record_def
        NewAdapter_def NewAdapterWithConfig_def collectionName_def defaultCollectionName_def
        map_of_rule_fields)
qed

text \<open>
  Claim C10. When \<^verbatim>\<open>LoadPolicy\<close> returns an error, the model is the one that the caller
  passed: the errors come from the first loop, which fills the local slice, and no line
  has been loaded by then.
\<close>

theorem LoadPolicy_error_keeps_model:
  assumes "LoadPolicy fl a db model = Inr (Some err, model')"
  shows "model' = model"
  using assms by (auto simp: LoadPolicy_def split: sum.splits)

text \<open>
  Claim C8. When the text of the file does not parse as a model definition,
  \<^verbatim>\<open>SaveModelWithConfig\<close> returns the error of the parser and leaves the database as it
  was, whatever the environment would do to a write: no transaction is run.
\<close>

theorem SaveModel_validates_first:
  assumes "ReadFile path = Inr text" and "NewModelFromString text = Inl err"
  shows "SaveModelWithConfig fl ReadFile NewModelFromString db path config = (Some err, db)"
  using assms by (simp add: SaveModelWithConfig_def)


lemma range_map_keys: "set ks \<subseteq> dom m \<Longrightarrow> range_map m ks = map (\<lambda>k. (k, the (m k))) ks"
  unfolding range_map_def by (induction ks) auto

lemma SavePolicy_lines_keys:
  "set ks \<subseteq> dom am \<Longrightarrow>
     SavePolicy_lines am ks =
       concat (map (\<lambda>ptype. map (savePolicyLine ptype) (Policy (the (am ptype)))) ks)"
  by (simp add: SavePolicy_lines_def range_map_keys comp_def)

lemma distinct_saved_db:
  assumes "distinct (map Ref db)"
  shows "distinct (map Ref (saved_db a db lines))"
proof -
  let ?used = "map (\<lambda>d. ID (Ref d)) db @ map (\<lambda>d. ID (Ref d)) (filter (policy_record a) db)"
  let ?new = "new_documents (collection a) ?used lines"
  have "Ref d \<noteq> Ref d'" if "d \<in> set db" and "d' \<in> set ?new" for d d'
  proof
    assume "Ref d = Ref d'"
    moreover have "ID (Ref d) \<in> set ?used"
      using that(1) by simp
    ultimately have "ID (Ref d') \<in> set ?used"
      by simp
    with ID_new_documents [OF that(2)] show False
      by blast
  qed
  then have "Ref ` set (filter (\<lambda>d. \<not> policy_record a d) db) \<inter> Ref ` set ?new = {}"
    by auto
  moreover have "distinct (map Ref (filter (\<lambda>d. \<not> policy_record a d) db))"
    using assms by (rule distinct_map_filter)
  ultimately show ?thesis
    by (simp add: saved_db_def distinct_new_documents)
qed

text \<open>
  Claim C4, as amended. \<^verbatim>\<open>SavePolicy\<close> runs one transaction. When nothing fails it returns
  no error and the database then holds the former documents that are no policy records of
  the adapter (those of other collections, and those of its collection whose type is not a
  non-empty string), followed by one new document of the adapter's collection for each
  encoded rule of each policy type of the sections \<^verbatim>\<open>p\<close> and \<^verbatim>\<open>g\<close>, under references
  that differ from one another and from those kept. In every environment it either does
  the same or returns an error and leaves the database as it was.
\<close>

theorem SavePolicy_full_replace:
  assumes "distinct (map Ref db)"
    and "range_order pkeys (section_of model ''p'')"
    and "range_order gkeys (section_of model ''g'')"
  shows "\<exists>new.
      map Fields new = map rule_fields
        (concat (map (\<lambda>ptype. map (savePolicyLine ptype)
                   (Policy (the (section_of model ''p'' ptype)))) pkeys)
         @ concat (map (\<lambda>ptype. map (savePolicyLine ptype)
                   (Policy (the (section_of model ''g'' ptype)))) gkeys))
    \<and> set (map (\<lambda>d. Parent (Ref d)) new) \<subseteq> {collection a}
    \<and> distinct (map Ref (filter (\<lambda>d. \<not> policy_record a d) db @ new))
    \<and> SavePolicy no_faults a pkeys gkeys db model =
        (None, filter (\<lambda>d. \<not> policy_record a d) db @ new)
    \<and> (\<forall>fl. SavePolicy fl a pkeys gkeys db model =
               (None, filter (\<lambda>d. \<not> policy_record a d) db @ new)
            \<or> (\<exists>e. SavePolicy fl a pkeys gkeys db model = (Some e, db)))"
proof -
  let ?lines = "saved_lines model pkeys gkeys"
  let ?used = "map (\<lambda>d. ID (Ref d)) db @ map (\<lambda>d. ID (Ref d)) (filter (policy_record a) db)"
  let ?new = "new_documents (collection a) ?used ?lines"
  have db': "saved_db a db ?lines = filter (\<lambda>d. \<not> policy_record a d) db @ ?new"
    by (simp add: saved_db_def)
  have "?lines =
      concat (map (\<lambda>ptype. map (savePolicyLine ptype)
                   (Policy (the (section_of model ''p'' ptype)))) pkeys)
      @ concat (map (\<lambda>ptype. map (savePolicyLine ptype)
                   (Policy (the (section_of model ''g'' ptype)))) gkeys)"
    using assms(2,3) by (simp add: saved_lines_def SavePolicy_lines_keys range_order_def)
  then have 1: "map Fields ?new = map rule_fields
        (concat (map (\<lambda>ptype. map (savePolicyLine ptype)
                   (Policy (the (section_of model ''p'' ptype)))) pkeys)
         @ concat (map (\<lambda>ptype. map (savePolicyLine ptype)
                   (Policy (the (section_of model ''g'' ptype)))) gkeys))"
    by (simp only: Fields_new_documents)
  have 2: "set (map (\<lambda>d. Parent (Ref d)) ?new) \<subseteq> {collection a}"
    by (auto dest: Parent_new_documents)
  have 3: "distinct (map Ref (filter (\<lambda>d. \<not> policy_record a d) db @ ?new))"
    using distinct_saved_db [OF assms(1), of a ?lines] by (simp only: db')
  have 4: "SavePolicy no_faults a pkeys gkeys db model =
        (None, filter (\<lambda>d. \<not> policy_record a d) db @ ?new)"
    using SavePolicy_no_faults [OF assms(1), of a pkeys gkeys model] by (simp only: db')
  have 5: "SavePolicy fl a pkeys gkeys db model =
               (None, filter (\<lambda>d. \<not> policy_record a d) db @ ?new)
            \<or> (\<exists>e. SavePolicy fl a pkeys gkeys db model = (Some e, db))" for fl
    using SavePolicy_cases [OF assms(1), of fl a pkeys gkeys model] by (auto simp only: db')
  from 1 2 3 4 5 show ?thesis
    by blast
qed


lemma test_sections:
  "section_of test_model ''p'' = [''p'' \<mapsto> p_assertion]"
  "section_of test_model ''g'' = [''g'' \<mapsto> g_assertion]"
  by (simp_all add: section_of_def test_model_def)

lemma collection_NewAdapter: "collection NewAdapter = ''casbin''"
  by (simp add: NewAdapter_def NewAdapterWithConfig_def collectionName_def
      defaultCollectionName_def)

lemma policy_record_examples:
  "\<not> policy_record NewAdapter untyped_record"
  "\<not> policy_record NewAdapter conf_document"
  "ptype \<noteq> [] \<Longrightarrow> policy_record NewAdapter (rule_document n ptype rule)"
  by (simp_all add: policy_record_def untyped_record_def conf_document_def rule_document_def
      conf_fields_def map_of_rule_fields PType_savePolicyLine collection_NewAdapter)

theorem SavePolicy_full_replace_witness:
  "\<exists>new. map Fields new =
       [rule_fields (savePolicyLine ''p'' [''alice'', ''data1'', ''read'']),
        rule_fields (savePolicyLine ''p'' [''bob'', ''data2'', ''write'']),
        rule_fields (savePolicyLine ''g'' [''alice'', ''data2_admin''])]
     \<and> SavePolicy no_faults NewAdapter [''p''] [''g'']
         [conf_document, untyped_record, rule_document 2 ''p'' [''bob'', ''data2'', ''write'']]
         test_model
       = (None, [conf_document, untyped_record] @ new)"
proof -
  have refs: "distinct (map Ref
      [conf_document, untyped_record, rule_document 2 ''p'' [''bob'', ''data2'', ''write'']])"
    by (simp add: conf_document_def untyped_record_def rule_document_def)
  have p: "range_order [''p''] (section_of test_model ''p'')"
    and g: "range_order [''g''] (section_of test_model ''g'')"
    by (simp_all add: range_order_def test_sections)
  from SavePolicy_full_replace [OF refs p g, of NewAdapter]
  obtain new where "map Fields new = map rule_fields
        (concat (map (\<lambda>ptype. map (savePolicyLine ptype)
                   (Policy (the (section_of test_model ''p'' ptype)))) [''p''])
         @ concat (map (\<lambda>ptype. map (savePolicyLine ptype)
                   (Policy (the (section_of test_model ''g'' ptype)))) [''g'']))"
    and "SavePolicy no_faults NewAdapter [''p''] [''g'']
         [conf_document, untyped_record, rule_document 2 ''p'' [''bob'', ''data2'', ''write'']]
         test_model
       = (None, filter (\<lambda>d. \<not> policy_record NewAdapter d)
           [conf_document, untyped_record, rule_document 2 ''p'' [''bob'', ''data2'', ''write'']]
           @ new)"
    by blast
  then show ?thesis
    by (intro exI [of _ new])
      (simp add: policy_record_examples test_sections p_assertion_def g_assertion_def)
qed

text \<open>
  Claim C4 as stated fails: \<^verbatim>\<open>AddPolicy\<close> with the empty policy type creates a record,
  and \<^verbatim>\<open>SavePolicy\<close> leaves that record in the collection.
\<close>

theorem SavePolicy_keeps_untyped_counterexample:
  "AddPolicy no_faults NewAdapter [] ''p'' [] [''alice'', ''data1'', ''read'']
     = (None, [untyped_record])
   \<and> SavePolicy no_faults NewAdapter [''p''] [''g''] [untyped_record] test_model
     = (None, [untyped_record,
               rule_document 2 ''p'' [''alice'', ''data1'', ''read''],
               rule_document 3 ''p'' [''bob'', ''data2'', ''write''],
               rule_document 4 ''g'' [''alice'', ''data2_admin'']])"
proof -
  have add: "AddPolicy no_faults NewAdapter [] ''p'' [] [''alice'', ''data1'', ''read'']
     = (None, [untyped_record])"
    using RunTransaction_no_faults [of "\<lambda>tx. tx_Create no_faults tx (NewDoc tx ''casbin'')
        (rule_fields (savePolicyLine [] [''alice'', ''data1'', ''read'']))" "[]"]
    by (simp add: AddPolicy_def tx_Create_def tx_write_no_faults NewDoc_def
        fresh_id_def untyped_record_def collection_NewAdapter)
  have "saved_lines test_model [''p''] [''g''] =
      [savePolicyLine ''p'' [''alice'', ''data1'', ''read''],
       savePolicyLine ''p'' [''bob'', ''data2'', ''write''],
       savePolicyLine ''g'' [''alice'', ''data2_admin'']]"
    by (simp add: saved_lines_def SavePolicy_lines_def range_map_def test_sections
        p_assertion_def g_assertion_def)
  moreover have "ID (Ref untyped_record) = AutoId 1"
    by (simp add: untyped_record_def)
  then have "saved_db NewAdapter [untyped_record]
       [savePolicyLine ''p'' [''alice'', ''data1'', ''read''],
        savePolicyLine ''p'' [''bob'', ''data2'', ''write''],
        savePolicyLine ''g'' [''alice'', ''data2_admin'']]
     = [untyped_record,
        rule_document 2 ''p'' [''alice'', ''data1'', ''read''],
        rule_document 3 ''p'' [''bob'', ''data2'', ''write''],
        rule_document 4 ''g'' [''alice'', ''data2_admin'']]"
    by (simp add: saved_db_def policy_record_examples fresh_id_def rule_document_def
        collection_NewAdapter)
  moreover have "distinct (map Ref [untyped_record])"
    by simp
  ultimately have "SavePolicy no_faults NewAdapter [''p''] [''g''] [untyped_record] test_model
     = (None, [untyped_record,
               rule_document 2 ''p'' [''alice'', ''data1'', ''read''],
               rule_document 3 ''p'' [''bob'', ''data2'', ''write''],
               rule_document 4 ''g'' [''alice'', ''data2_admin'']])"
    using SavePolicy_no_faults [of "[untyped_record]" NewAdapter "[''p'']" "[''g'']" test_model]
    by simp
  moreover note add
  ultimately show ?thesis
    by simp
qed

lemma DataTo_rule_document: "DataTo (rule_document n ptype rule) = Inr (savePolicyLine ptype rule)"
  by (simp add: rule_document_def DataTo_rule_fields)

theorem LoadPolicy_error_keeps_model_witness:
  "LoadPolicy failing_iterator NewAdapter
       [rule_document 1 ''p'' [''alice'', ''data1'', ''read''],
        rule_document 2 ''p'' [''bob'', ''data2'', ''write'']] test_model
     = Inr (Some (TransportError ''unavailable''), test_model)
   \<and> LoadPolicy no_faults NewAdapter
       [rule_document 1 ''p'' [''alice'', ''data1'', ''read''], malformed_document] test_model
     = Inr (Some (DecodeError ''v0''), test_model)"
proof -
  let ?db1 = "[rule_document 1 ''p'' [''alice'', ''data1'', ''read''],
        rule_document 2 ''p'' [''bob'', ''data2'', ''write'']]"
  let ?db2 = "[rule_document 1 ''p'' [''alice'', ''data1'', ''read''], malformed_document]"
  have bad: "policy_record NewAdapter malformed_document"
    by (simp add: policy_record_def malformed_document_def collection_NewAdapter)
  have "LoadPolicy_read (Documents failing_iterator ?db1 (newQuery NewAdapter)) []
      = Inl (TransportError ''unavailable'')"
    by (simp add: Documents_def matches_newQuery policy_record_examples failing_iterator_def
        DataTo_rule_document)
  then obtain m1 where 1: "LoadPolicy failing_iterator NewAdapter ?db1 test_model
      = Inr (Some (TransportError ''unavailable''), m1)"
    by (simp add: LoadPolicy_def)
  have "DataTo malformed_document = Inl (DecodeError ''v0'')"
    by (simp add: DataTo_def string_field_def bind_sum_def malformed_document_def)
  then have "LoadPolicy_read (Documents no_faults ?db2 (newQuery NewAdapter)) []
      = Inl (DecodeError ''v0'')"
    by (simp add: Documents_no_faults matches_newQuery policy_record_examples bad
        DataTo_rule_document)
  then obtain m2 where 2: "LoadPolicy no_faults NewAdapter ?db2 test_model
      = Inr (Some (DecodeError ''v0''), m2)"
    by (simp add: LoadPolicy_def)
  from 1 2 LoadPolicy_error_keeps_model [OF 1] LoadPolicy_error_keeps_model [OF 2]
  show ?thesis
    by simp
qed

theorem SaveModel_validates_first_witness:
  "SaveModelWithConfig no_faults (\<lambda>path. Inr ''p, alice, data1, read'')
       (\<lambda>text. Inl (ModelError ''no request definition'') :: error + unit)
       [conf_document] ''examples/rbac_policy.csv'' \<lparr>Collection = []\<rparr>
     = (Some (ModelError ''no request definition''), [conf_document])"
  using SaveModel_validates_first
    [of "\<lambda>path. Inr ''p, alice, data1, read''" "''examples/rbac_policy.csv''"
        "''p, alice, data1, read''"
        "\<lambda>text. Inl (ModelError ''no request definition'') :: error + unit"
        "ModelError ''no request definition''" no_faults "[conf_document]"
        "\<lparr>Collection = []\<rparr>"]
  by simp

lemma matches_where_all: "matches (where_all q kvs) d \<Longrightarrow> matches q d"
  by (simp add: matches_def filters_where_all collection_where_all list_all_iff)

lemma base_filter_where_all: "x \<in> set (q_filters q) \<Longrightarrow> x \<in> set (q_filters (where_all q kvs))"
  by (simp add: filters_where_all)

lemma matches_RemovePolicy_query_base:
  "matches (RemovePolicy_query a line) d \<Longrightarrow> matches (newQuery a) d"
  by (simp add: matches_def RemovePolicy_query_def Where_def)

lemma blank_no_policy_record:
  "map_of (Fields d) ''p_type'' = Some (StringValue []) \<Longrightarrow> \<not> policy_record a d"
  by (simp add: policy_record_def)

lemma delete_transaction_keeps:
  assumes "distinct (map Ref db)" and "d \<in> set db" and "\<not> matches q d"
  shows "d \<in> set (snd (RunTransaction fl db (\<lambda>tx. delete_all fl (tx_Documents fl tx q) tx)))"
  using delete_transaction_cases [OF assms(1), of fl q] assms(2,3) by auto

lemma AddPolicy_keeps: "d \<in> set db \<Longrightarrow> d \<in> set (snd (AddPolicy fl a db sec ptype rule))"
proof -
  assume d: "d \<in> set db"
  let ?f = "\<lambda>tx. tx_Create fl tx (NewDoc tx (collection a))
      (rule_fields (savePolicyLine ptype rule))"
  from RunTransaction_cases [of fl db ?f]
  consider e where "RunTransaction fl db ?f = (Some e, db)"
    | tx where "?f \<lparr>tx_db = db, tx_writes = []\<rparr> = (None, tx)"
        "RunTransaction fl db ?f = (None, foldl apply_write db (tx_writes tx))"
    by blast
  then show ?thesis
  proof cases
    case 1
    with d show ?thesis by (simp add: AddPolicy_def)
  next
    case 2
    from 2(1) have "\<exists>r fs. tx_writes tx = [CreateWrite r fs]"
      by (auto simp: tx_Create_def tx_write_def split: option.splits)
    with 2(2) d show ?thesis
      by (auto simp: AddPolicy_def)
  qed
qed

lemma LoadPolicy_skips:
  assumes "\<not> policy_record a d"
  shows "LoadPolicy fl a db model = LoadPolicy fl a (removeAll d db) model"
proof -
  have "filter (policy_record a) (removeAll d db) = filter (policy_record a) db"
    using assms by (induction db) auto
  then show ?thesis
    by (simp add: LoadPolicy_def Documents_def matches_newQuery cong: filter_cong)
qed

text \<open>
  Claim C9. The base query, the query of \<^verbatim>\<open>RemovePolicy\<close> and every query that
  \<^verbatim>\<open>RemoveFilteredPolicy\<close> builds hold the filter that the type is greater than the empty
  string; \<^verbatim>\<open>LoadPolicy\<close> and the transaction of \<^verbatim>\<open>SavePolicy\<close> read through the base
  query. So a stored document whose type is the empty string is not loaded
  (\<^verbatim>\<open>LoadPolicy\<close> does the same with and without it) and is still stored after
  \<^verbatim>\<open>SavePolicy\<close>, \<^verbatim>\<open>AddPolicy\<close>, \<^verbatim>\<open>RemovePolicy\<close> and \<^verbatim>\<open>RemoveFilteredPolicy\<close>,
  whatever their arguments and whatever fails. References are unique in the database.
\<close>

theorem empty_type_never_selected:
  assumes "distinct (map Ref db)" and "d \<in> set db"
    and "map_of (Fields d) ''p_type'' = Some (StringValue [])"
  shows "(''p_type'', GreaterThan, []) \<in> set (q_filters (newQuery a))
    \<and> (''p_type'', GreaterThan, []) \<in> set (q_filters (RemovePolicy_query a line))
    \<and> (\<forall>q. RemoveFilteredPolicy_query order a ptype fieldIndex fieldValues = Inr q
          \<longrightarrow> (''p_type'', GreaterThan, []) \<in> set (q_filters q))
    \<and> LoadPolicy fl a db model = LoadPolicy fl a (removeAll d db) model
    \<and> d \<in> set (snd (SavePolicy fl a pkeys gkeys db model))
    \<and> d \<in> set (snd (AddPolicy fl a db sec ptype rule))
    \<and> d \<in> set (snd (RemovePolicy fl a db sec ptype rule))
    \<and> (\<forall>r db'. RemoveFilteredPolicy fl order a db sec ptype fieldIndex fieldValues = Inr (r, db')
          \<longrightarrow> d \<in> set db')"
proof -
  have no: "\<not> policy_record a d"
    using assms(3) by (rule blank_no_policy_record)
  then have nm: "\<not> matches (newQuery a) d"
    by (simp add: matches_newQuery)
  have base: "(''p_type'', GreaterThan, []) \<in> set (q_filters (newQuery a))"
    by (simp add: newQuery_def Where_def Collection_query_def)
  have 2: "(''p_type'', GreaterThan, []) \<in> set (q_filters (RemovePolicy_query a line))"
    by (simp add: RemovePolicy_query_def newQuery_def Where_def Collection_query_def)
  have q: "\<exists>kvs. q = where_all (newQuery a) kvs"
    if "RemoveFilteredPolicy_query order a ptype fieldIndex fieldValues = Inr q" for q
    using that by (auto simp: RemoveFilteredPolicy_query_def bind_sum_def split: sum.splits)
  have 3: "\<forall>q. RemoveFilteredPolicy_query order a ptype fieldIndex fieldValues = Inr q
          \<longrightarrow> (''p_type'', GreaterThan, []) \<in> set (q_filters q)"
    using q base base_filter_where_all by blast
  have 4: "LoadPolicy fl a db model = LoadPolicy fl a (removeAll d db) model"
    using no by (rule LoadPolicy_skips)
  have 5: "d \<in> set (snd (SavePolicy fl a pkeys gkeys db model))"
    using SavePolicy_cases [OF assms(1), of fl a pkeys gkeys model] assms(2) no
    by (auto simp: saved_db_def)
  have 6: "d \<in> set (snd (AddPolicy fl a db sec ptype rule))"
    using assms(2) by (rule AddPolicy_keeps)
  have "\<not> matches (RemovePolicy_query a (savePolicyLine ptype rule)) d"
    using nm matches_RemovePolicy_query_base by blast
  then have 7: "d \<in> set (snd (RemovePolicy fl a db sec ptype rule))"
    using delete_transaction_keeps [OF assms(1,2)] by (simp add: RemovePolicy_def Let_def)
  have 8: "d \<in> set db'"
    if "RemoveFilteredPolicy fl order a db sec ptype fieldIndex fieldValues = Inr (r, db')"
    for r db'
  proof -
    from that obtain q' where q': "RemoveFilteredPolicy_query order a ptype fieldIndex fieldValues = Inr q'"
      and run: "RunTransaction fl db (\<lambda>tx. delete_all fl (tx_Documents fl tx q') tx) = (r, db')"
      by (auto simp: RemoveFilteredPolicy_def bind_sum_def split: sum.splits)
    from q [OF q'] nm have "\<not> matches q' d"
      using matches_where_all by blast
    from delete_transaction_keeps [OF assms(1,2) this, of fl] run show ?thesis
      by simp
  qed
  from base 2 3 4 5 6 7 8 show ?thesis
    by blast
qed


theorem empty_type_never_selected_witness:
  "LoadPolicy no_faults NewAdapter
       [untyped_record, rule_document 2 ''p'' [''bob'', ''data2'', ''write'']] test_model
     = LoadPolicy no_faults NewAdapter
       [rule_document 2 ''p'' [''bob'', ''data2'', ''write'']] test_model
   \<and> untyped_record \<in> set (snd (SavePolicy no_faults NewAdapter [''p''] [''g'']
       [untyped_record, rule_document 2 ''p'' [''bob'', ''data2'', ''write'']] test_model))
   \<and> untyped_record \<in> set (snd (RemovePolicy no_faults NewAdapter
       [untyped_record, rule_document 2 ''p'' [''bob'', ''data2'', ''write'']]
       ''p'' [] [''alice'', ''data1'', ''read'']))
   \<and> (\<exists>r db'. RemoveFilteredPolicy no_faults rev NewAdapter
         [untyped_record, rule_document 2 ''p'' [''bob'', ''data2'', ''write'']]
         ''p'' [] 0 [''alice''] = Inr (r, db')
       \<and> untyped_record \<in> set db')"
proof -
  let ?db = "[untyped_record, rule_document 2 ''p'' [''bob'', ''data2'', ''write'']]"
  have refs: "distinct (map Ref ?db)"
    by (simp add: untyped_record_def rule_document_def)
  have blank: "map_of (Fields untyped_record) ''p_type'' = Some (StringValue [])"
    by (simp add: untyped_record_def map_of_rule_fields PType_savePolicyLine)
  have other: "rule_document 2 ''p'' [''bob'', ''data2'', ''write''] \<noteq> untyped_record"
    by (simp add: untyped_record_def rule_document_def)
  have "\<exists>q. RemoveFilteredPolicy_query rev NewAdapter [] 0 [''alice''] = Inr q"
    by (simp add: RemoveFilteredPolicy_query_def filter_selector_eval bind_sum_def)
  then have "\<exists>r db'. RemoveFilteredPolicy no_faults rev NewAdapter ?db ''p'' [] 0 [''alice'']
      = Inr (r, db')"
    by (auto simp: RemoveFilteredPolicy_def bind_sum_def intro: prod.exhaust)
  then obtain r db' where run: "RemoveFilteredPolicy no_faults rev NewAdapter ?db ''p'' [] 0
      [''alice''] = Inr (r, db')"
    by blast
  from empty_type_never_selected [of ?db untyped_record, OF refs _ blank,
      of NewAdapter "savePolicyLine [] [''alice'']" rev "[]" 0 "[''alice'']" no_faults test_model "[''p'']" "[''g'']"
        "''p''" "[''alice'', ''data1'', ''read'']"]
  show ?thesis
    using run other by auto
qed

section \<open>Saving twice, and saving then loading\<close>

lemma stored_records_append: "stored_records (xs @ ys) = stored_records xs \<union> stored_records ys"
  by (auto simp: stored_records_def)

lemma stored_records_new_documents:
  "stored_records (new_documents c used lines) = (\<lambda>l. (c, rule_fields l)) ` set lines"
  by (induction lines arbitrary: used) (auto simp: stored_records_def)

lemma stored_records_filter: "stored_records (filter P db) \<subseteq> stored_records db"
  by (auto simp: stored_records_def)

lemma set_SavePolicy_lines:
  "set (SavePolicy_lines am ks) =
     {savePolicyLine k r | k r ast. k \<in> set ks \<and> am k = Some ast \<and> r \<in> set (Policy ast)}"
proof -
  have "set (range_map am ks) = {(k, ast). k \<in> set ks \<and> am k = Some ast}"
    unfolding range_map_def by (induction ks) (auto split: option.splits)
  then show ?thesis
    unfolding SavePolicy_lines_def by auto
qed

lemma set_saved_lines:
  assumes "range_order pkeys (section_of model ''p'')" "range_order gkeys (section_of model ''g'')"
  shows "set (saved_lines model pkeys gkeys) =
     {savePolicyLine k r | k r ast. section_of model ''p'' k = Some ast \<and> r \<in> set (Policy ast)}
     \<union> {savePolicyLine k r | k r ast. section_of model ''g'' k = Some ast \<and> r \<in> set (Policy ast)}"
  using assms unfolding saved_lines_def set_append set_SavePolicy_lines range_order_def
  by (intro arg_cong2 [where f = "(\<union>)"]) blast+


text \<open>
  Claim C7. When \<^verbatim>\<open>SavePolicy\<close> of a model has returned no error, a second
  \<^verbatim>\<open>SavePolicy\<close> of the same model, whatever order its range loops take and whatever fails
  in it, leaves a database with the same stored record set; and without failures the first
  call does return no error. References are unique in the database.
\<close>

theorem SavePolicy_twice_same_records:
  assumes "distinct (map Ref db)"
    and "range_order pkeys (section_of model ''p'')"
    and "range_order gkeys (section_of model ''g'')"
    and "range_order pkeys' (section_of model ''p'')"
    and "range_order gkeys' (section_of model ''g'')"
  shows "fst (SavePolicy no_faults a pkeys gkeys db model) = None
    \<and> (\<forall>fl fl'. fst (SavePolicy fl a pkeys gkeys db model) = None \<longrightarrow>
          stored_records (snd (SavePolicy fl' a pkeys' gkeys'
                                 (snd (SavePolicy fl a pkeys gkeys db model)) model))
          = stored_records (snd (SavePolicy fl a pkeys gkeys db model)))"
proof -
  let ?L = "saved_lines model pkeys gkeys"
  let ?L' = "saved_lines model pkeys' gkeys'"
  let ?db1 = "saved_db a db ?L"
  have lines: "set ?L' = set ?L"
    using assms(2-5) by (simp only: set_saved_lines)
  have d1: "distinct (map Ref ?db1)"
    using assms(1) by (rule distinct_saved_db)
  have new: "stored_records (saved_db a x l) =
      stored_records (filter (\<lambda>d. \<not> policy_record a d) x) \<union> (\<lambda>l. (collection a, rule_fields l)) ` set l"
    for x l
    by (simp add: saved_db_def stored_records_append stored_records_new_documents)
  define K where "K = stored_records (filter (\<lambda>d. \<not> policy_record a d) db)"
  define K1 where "K1 = stored_records (filter (\<lambda>d. \<not> policy_record a d) ?db1)"
  define N where "N = (\<lambda>l. (collection a, rule_fields l)) ` set ?L"
  have r1: "stored_records ?db1 = K \<union> N"
    unfolding K_def N_def by (rule new)
  have r2: "stored_records (saved_db a ?db1 ?L') = K1 \<union> N"
    unfolding K1_def N_def lines [symmetric] by (rule new)
  have "K1 \<subseteq> stored_records ?db1"
    unfolding K1_def by (rule stored_records_filter)
  moreover have "K \<subseteq> K1"
    unfolding K_def K1_def by (auto simp: saved_db_def stored_records_def)
  ultimately have same: "stored_records (saved_db a ?db1 ?L') = stored_records ?db1"
    unfolding r1 r2 by blast
  have second: "stored_records (snd (SavePolicy fl' a pkeys' gkeys' ?db1 model))
      = stored_records ?db1" for fl'
  proof -
    from SavePolicy_cases [OF d1, of fl' a pkeys' gkeys' model]
    consider e where "SavePolicy fl' a pkeys' gkeys' ?db1 model = (Some e, ?db1)"
      | "SavePolicy fl' a pkeys' gkeys' ?db1 model = (None, saved_db a ?db1 ?L')"
      by blast
    then show ?thesis
    proof cases
      case 1
      then show ?thesis by simp
    next
      case 2
      then show ?thesis by (simp only: snd_conv same)
    qed
  qed
  have first: "snd (SavePolicy fl a pkeys gkeys db model) = ?db1"
    if ok: "fst (SavePolicy fl a pkeys gkeys db model) = None" for fl
  proof -
    from SavePolicy_cases [OF assms(1), of fl a pkeys gkeys model]
    consider e where "SavePolicy fl a pkeys gkeys db model = (Some e, db)"
      | "SavePolicy fl a pkeys gkeys db model = (None, ?db1)"
      by blast
    then show ?thesis
    proof cases
      case 1
      with ok show ?thesis by simp
    next
      case 2
      then show ?thesis by simp
    qed
  qed
  have "fst (SavePolicy no_faults a pkeys gkeys db model) = None"
    by (simp only: SavePolicy_no_faults [OF assms(1)] fst_conv)
  moreover have "stored_records (snd (SavePolicy fl' a pkeys' gkeys'
                                 (snd (SavePolicy fl a pkeys gkeys db model)) model))
          = stored_records (snd (SavePolicy fl a pkeys gkeys db model))"
    if "fst (SavePolicy fl a pkeys gkeys db model) = None" for fl fl'
    by (simp only: first [OF that] second)
  ultimately show ?thesis
    by blast
qed


theorem SavePolicy_twice_same_records_witness:
  "fst (SavePolicy no_faults NewAdapter [''p''] [''g'']
          [untyped_record, rule_document 2 ''p'' [''bob'', ''data2'', ''write'']] test_model) = None
   \<and> stored_records (snd (SavePolicy no_faults NewAdapter [''p''] [''g'']
         (snd (SavePolicy no_faults NewAdapter [''p''] [''g'']
            [untyped_record, rule_document 2 ''p'' [''bob'', ''data2'', ''write'']] test_model))
         test_model))
     = stored_records (snd (SavePolicy no_faults NewAdapter [''p''] [''g'']
         [untyped_record, rule_document 2 ''p'' [''bob'', ''data2'', ''write'']] test_model))"
proof -
  have refs: "distinct (map Ref
      [untyped_record, rule_document 2 ''p'' [''bob'', ''data2'', ''write'']])"
    by (simp add: untyped_record_def rule_document_def)
  have p: "range_order [''p''] (section_of test_model ''p'')"
    and g: "range_order [''g''] (section_of test_model ''g'')"
    by (simp_all add: range_order_def test_sections)
  from SavePolicy_twice_same_records [OF refs p g p g, of NewAdapter]
  show ?thesis
    by blast
qed

lemma policy_at_section: "policy_at model sec key = map_option Policy (section_of model sec key)"
  by (simp add: policy_at_def section_of_def split: option.splits)

lemma policy_at_ClearPolicy:
  "policy_at (ClearPolicy model) sec key =
     (if sec = ''p'' \<or> sec = ''g'' then map_option (\<lambda>p. []) (policy_at model sec key)
      else policy_at model sec key)"
  by (auto simp: policy_at_def ClearPolicy_def option.map_comp comp_def split: option.splits)

lemma loadPolicyLine_policy_at:
  assumes "PType l \<noteq> []" and "policy_at m (take 1 (PType l)) (PType l) \<noteq> None"
  shows "\<exists>m'. loadPolicyLine l m = Inr m'
    \<and> (\<forall>s k. policy_at m' s k =
          (if s = take 1 (PType l) \<and> k = PType l
           then map_option (\<lambda>p. p @ [loadPolicyLine_tokens l]) (policy_at m s k)
           else policy_at m s k))"
proof -
  from assms(2) obtain am ast where am: "m (take 1 (PType l)) = Some am"
    and ast: "am (PType l) = Some ast"
    by (auto simp: policy_at_def split: option.splits)
  let ?m' = "m(take 1 (PType l) \<mapsto>
       am(PType l \<mapsto> ast\<lparr>Policy := Policy ast @ [loadPolicyLine_tokens l]\<rparr>))"
  have "loadPolicyLine l m = Inr ?m'"
    using assms(1) am ast by (rule loadPolicyLine_appends)
  moreover have "policy_at ?m' s k =
          (if s = take 1 (PType l) \<and> k = PType l
           then map_option (\<lambda>p. p @ [loadPolicyLine_tokens l]) (policy_at m s k)
           else policy_at m s k)" for s k
    using am ast by (auto simp: policy_at_def)
  ultimately show ?thesis
    by blast
qed

lemma decoded_rules_Cons:
  "decoded_rules s k (l # ls) =
     (if s = take 1 (PType l) \<and> k = PType l then loadPolicyLine_tokens l # decoded_rules s k ls
      else decoded_rules s k ls)"
  by (auto simp: decoded_rules_def)

lemma LoadPolicy_lines_policy_at:
  assumes "\<forall>l \<in> set ls. PType l \<noteq> [] \<and> policy_at m (take 1 (PType l)) (PType l) \<noteq> None"
  shows "\<exists>m'. LoadPolicy_lines ls m = Inr m'
    \<and> (\<forall>s k. policy_at m' s k = map_option (\<lambda>p. p @ decoded_rules s k ls) (policy_at m s k))"
  using assms
proof (induction ls arbitrary: m)
  case Nil
  then show ?case
    by (simp add: decoded_rules_def option.map_ident)
next
  case (Cons l ls)
  from Cons.prems have "PType l \<noteq> []" "policy_at m (take 1 (PType l)) (PType l) \<noteq> None"
    by simp_all
  from loadPolicyLine_policy_at [OF this] obtain m1 where m1: "loadPolicyLine l m = Inr m1"
    and at1: "\<And>s k. policy_at m1 s k =
          (if s = take 1 (PType l) \<and> k = PType l
           then map_option (\<lambda>p. p @ [loadPolicyLine_tokens l]) (policy_at m s k)
           else policy_at m s k)"
    by blast
  have "\<forall>l' \<in> set ls. PType l' \<noteq> [] \<and> policy_at m1 (take 1 (PType l')) (PType l') \<noteq> None"
    using Cons.prems by (auto simp: at1)
  from Cons.IH [OF this] obtain m' where m': "LoadPolicy_lines ls m1 = Inr m'"
    and at': "\<And>s k. policy_at m' s k =
        map_option (\<lambda>p. p @ decoded_rules s k ls) (policy_at m1 s k)"
    by blast
  have "policy_at m' s k = map_option (\<lambda>p. p @ decoded_rules s k (l # ls)) (policy_at m s k)"
    for s k
  proof (cases "s = take 1 (PType l) \<and> k = PType l")
    case True
    then show ?thesis
      by (simp add: at' at1 decoded_rules_Cons option.map_comp comp_def)
  next
    case False
    then show ?thesis
      by (simp only: at' at1 decoded_rules_Cons if_False)
  qed
  moreover have "LoadPolicy_lines (l # ls) m = Inr m'"
    using m1 m' by simp
  ultimately show ?case
    by blast
qed

lemma LoadPolicy_read_new_documents:
  "LoadPolicy_read (map Inr (new_documents c used ls)) acc = Inr (acc @ ls)"
  by (induction ls arbitrary: used acc) (simp_all add: DataTo_rule_fields)

lemma policy_record_new_documents:
  assumes "\<forall>l \<in> set ls. PType l \<noteq> []"
  shows "filter (policy_record a) (new_documents (collection a) used ls)
     = new_documents (collection a) used ls"
  using assms
  by (induction ls arbitrary: used) (simp_all add: policy_record_def map_of_rule_fields)


lemma saved_lines_cases:
  assumes "range_order pkeys (section_of model ''p'')" "range_order gkeys (section_of model ''g'')"
    and "l \<in> set (saved_lines model pkeys gkeys)"
  obtains sec key ast r where "sec = ''p'' \<or> sec = ''g''"
    and "section_of model sec key = Some ast" and "r \<in> set (Policy ast)"
    and "l = savePolicyLine key r"
  using assms(3) unfolding set_saved_lines [OF assms(1,2)] by blast

lemma saved_lines_member:
  assumes "range_order pkeys (section_of model ''p'')" "range_order gkeys (section_of model ''g'')"
    and "sec = ''p'' \<or> sec = ''g''"
    and "section_of model sec key = Some ast" and "r \<in> set (Policy ast)"
  shows "savePolicyLine key r \<in> set (saved_lines model pkeys gkeys)"
  using assms(3-5) unfolding set_saved_lines [OF assms(1,2)] by blast

lemma saved_lines_wf:
  assumes "range_order pkeys (section_of model ''p'')" "range_order gkeys (section_of model ''g'')"
    and "storable_section model ''p''" "storable_section model ''g''"
    and "l \<in> set (saved_lines model pkeys gkeys)"
  shows "PType l \<noteq> []
    \<and> (take 1 (PType l) = ''p'' \<or> take 1 (PType l) = ''g'')
    \<and> policy_at model (take 1 (PType l)) (PType l) \<noteq> None"
proof -
  from assms(1,2,5) obtain sec key ast r where sec: "sec = ''p'' \<or> sec = ''g''"
    and ast: "section_of model sec key = Some ast" and "r \<in> set (Policy ast)"
    and l: "l = savePolicyLine key r"
    by (rule saved_lines_cases)
  have "storable_section model sec"
    using sec assms(3,4) by blast
  with ast have key: "take 1 key = sec"
    by (simp add: storable_section_def)
  with sec have "key \<noteq> []"
    by auto
  then show ?thesis
    using sec key ast by (auto simp: l PType_savePolicyLine policy_at_section)
qed

lemma set_decoded_rules:
  assumes "range_order pkeys (section_of model ''p'')" "range_order gkeys (section_of model ''g'')"
    and "storable_section model ''p''" "storable_section model ''g''"
    and sec: "sec = ''p'' \<or> sec = ''g''"
    and ast: "section_of model sec key = Some ast"
  shows "set (decoded_rules sec key (saved_lines model pkeys gkeys)) = set (Policy ast)"
proof (intro equalityI subsetI)
  have st: "storable_section model s" if "s = ''p'' \<or> s = ''g''" for s
    using that assms(3,4) by blast
  {
    fix x
    assume "x \<in> set (decoded_rules sec key (saved_lines model pkeys gkeys))"
    then obtain l where l: "l \<in> set (saved_lines model pkeys gkeys)"
      and s: "take 1 (PType l) = sec" and k: "PType l = key" and x: "x = loadPolicyLine_tokens l"
      by (auto simp: decoded_rules_def)
    from assms(1,2) l obtain sec' key' ast' r where sec': "sec' = ''p'' \<or> sec' = ''g''"
      and ast': "section_of model sec' key' = Some ast'" and r: "r \<in> set (Policy ast')"
      and l': "l = savePolicyLine key' r"
      by (rule saved_lines_cases)
    from k l' have "key' = key"
      by (simp add: PType_savePolicyLine)
    moreover from st [OF sec'] ast' have "take 1 key' = sec'"
      and wf: "length r \<le> 6" "\<forall>f \<in> set r. f \<noteq> []"
      using r by (auto simp: storable_section_def)
    ultimately have "sec' = sec"
      using s k by simp
    with ast ast' \<open>key' = key\<close> have "ast' = ast"
      by simp
    moreover have "x = r"
      using x l' wf by (simp add: tokens_savePolicyLine)
    ultimately show "x \<in> set (Policy ast)"
      using r by simp
  }
  {
    fix r
    assume r: "r \<in> set (Policy ast)"
    from st [OF sec] ast r have key: "take 1 key = sec"
      and wf: "length r \<le> 6" "\<forall>f \<in> set r. f \<noteq> []"
      by (auto simp: storable_section_def)
    have "savePolicyLine key r \<in> set (saved_lines model pkeys gkeys)"
      using assms(1,2) sec ast r by (rule saved_lines_member)
    moreover have "loadPolicyLine_tokens (savePolicyLine key r) = r"
      using wf by (rule tokens_savePolicyLine)
    ultimately have "r \<in> loadPolicyLine_tokens `
        {l \<in> set (saved_lines model pkeys gkeys). take 1 (PType l) = sec \<and> PType l = key}"
      using key by (force simp: PType_savePolicyLine)
    then show "r \<in> set (decoded_rules sec key (saved_lines model pkeys gkeys))"
      by (simp add: decoded_rules_def)
  }
qed

lemma decoded_rules_none:
  assumes "\<forall>l \<in> set ls. take 1 (PType l) \<noteq> sec \<or> PType l \<noteq> key"
  shows "decoded_rules sec key ls = []"
  using assms by (simp add: decoded_rules_def filter_empty_conv)


text \<open>
  Claim C6, as amended. Let the adapter's collection be empty, and let the model hold, in its sections
  \<^verbatim>\<open>p\<close> and \<^verbatim>\<open>g\<close>, policy types that begin with the name of their section and rules
  of at most six non-empty fields. Then, without failures, \<^verbatim>\<open>SavePolicy\<close> returns no
  error, \<^verbatim>\<open>LoadPolicy\<close> of the result into the emptied model returns no error, and the
  loaded model holds under every section and policy type the same set of rules as the model
  that was saved.
\<close>

theorem SavePolicy_then_LoadPolicy:
  assumes "distinct (map Ref db)"
    and "filter (\<lambda>d. Parent (Ref d) = collection a) db = []"
    and "range_order pkeys (section_of model ''p'')"
    and "range_order gkeys (section_of model ''g'')"
    and "storable_section model ''p''" and "storable_section model ''g''"
  shows "\<exists>db1 model'.
      SavePolicy no_faults a pkeys gkeys db model = (None, db1)
    \<and> LoadPolicy no_faults a db1 (ClearPolicy model) = Inr (None, model')
    \<and> (\<forall>sec key. map_option set (policy_at model' sec key)
                   = map_option set (policy_at model sec key))"
proof -
  let ?L = "saved_lines model pkeys gkeys"
  let ?new = "new_documents (collection a)
      (map (\<lambda>d. ID (Ref d)) db @ map (\<lambda>d. ID (Ref d)) (filter (policy_record a) db)) ?L"
  let ?db1 = "saved_db a db ?L"
  note orders = assms(3,4) and storable = assms(5,6)
  have wf: "PType l \<noteq> [] \<and> (take 1 (PType l) = ''p'' \<or> take 1 (PType l) = ''g'')
      \<and> policy_at model (take 1 (PType l)) (PType l) \<noteq> None"
    if "l \<in> set ?L" for l
    using orders storable that by (rule saved_lines_wf)
  have save: "SavePolicy no_faults a pkeys gkeys db model = (None, ?db1)"
    using assms(1) by (rule SavePolicy_no_faults)
  have none: "\<not> policy_record a d" if "d \<in> set db" for d
    using assms(2) that by (auto simp: policy_record_def filter_empty_conv)
  then have "filter (policy_record a) db = []"
    by (simp add: filter_empty_conv)
  moreover have "filter (policy_record a) ?new = ?new"
    using wf by (intro policy_record_new_documents) blast
  ultimately have "filter (policy_record a) ?db1 = ?new"
    by (simp add: saved_db_def)
  then have read: "LoadPolicy_read (Documents no_faults ?db1 (newQuery a)) [] = Inr ?L"
    by (simp add: Documents_no_faults matches_newQuery LoadPolicy_read_new_documents
        cong: filter_cong)
  have "\<forall>l \<in> set ?L. PType l \<noteq> []
      \<and> policy_at (ClearPolicy model) (take 1 (PType l)) (PType l) \<noteq> None"
    using wf by (auto simp: policy_at_ClearPolicy)
  from LoadPolicy_lines_policy_at [OF this] obtain model'
    where lines: "LoadPolicy_lines ?L (ClearPolicy model) = Inr model'"
      and at: "\<And>s k. policy_at model' s k =
        map_option (\<lambda>p. p @ decoded_rules s k ?L) (policy_at (ClearPolicy model) s k)"
    by blast
  have load: "LoadPolicy no_faults a ?db1 (ClearPolicy model) = Inr (None, model')"
    by (simp add: LoadPolicy_def read lines)
  have "map_option set (policy_at model' sec key) = map_option set (policy_at model sec key)"
    for sec key
  proof (cases "sec = ''p'' \<or> sec = ''g''")
    case True
    show ?thesis
    proof (cases "section_of model sec key")
      case None
      then have "policy_at model sec key = None"
        by (simp add: policy_at_section)
      then show ?thesis
        by (simp add: at policy_at_ClearPolicy)
    next
      case (Some ast)
      then have "policy_at model sec key = Some (Policy ast)"
        by (simp add: policy_at_section)
      with set_decoded_rules [OF orders storable True Some]
      show ?thesis
        using True by (simp add: at policy_at_ClearPolicy)
    qed
  next
    case False
    have "decoded_rules sec key ?L = []"
      using wf False by (intro decoded_rules_none) blast
    then show ?thesis
      using False by (simp add: at policy_at_ClearPolicy option.map_ident)
  qed
  with save load show ?thesis
    by blast
qed

theorem SavePolicy_then_LoadPolicy_witness:
  "\<exists>db1 model'.
      SavePolicy no_faults NewAdapter [''p''] [''g''] [] test_model = (None, db1)
    \<and> LoadPolicy no_faults NewAdapter db1 (ClearPolicy test_model) = Inr (None, model')
    \<and> map_option set (policy_at model' ''p'' ''p'')
        = Some {[''alice'', ''data1'', ''read''], [''bob'', ''data2'', ''write'']}
    \<and> map_option set (policy_at model' ''g'' ''g'') = Some {[''alice'', ''data2_admin'']}"
proof -
  have p: "range_order [''p''] (section_of test_model ''p'')"
    and g: "range_order [''g''] (section_of test_model ''g'')"
    by (simp_all add: range_order_def test_sections)
  have sp: "storable_section test_model ''p''" and sg: "storable_section test_model ''g''"
    by (auto simp: storable_section_def test_sections p_assertion_def g_assertion_def
        split: if_splits)
  from SavePolicy_then_LoadPolicy [of "[]" NewAdapter "[''p'']" test_model "[''g'']", OF _ _ p g sp sg]
  obtain db1 model' where
    "SavePolicy no_faults NewAdapter [''p''] [''g''] [] test_model = (None, db1)"
    "LoadPolicy no_faults NewAdapter db1 (ClearPolicy test_model) = Inr (None, model')"
    "\<And>sec key. map_option set (policy_at model' sec key)
        = map_option set (policy_at test_model sec key)"
    by auto
  moreover have "policy_at test_model ''p'' ''p''
      = Some [[''alice'', ''data1'', ''read''], [''bob'', ''data2'', ''write'']]"
    and "policy_at test_model ''g'' ''g'' = Some [[''alice'', ''data2_admin'']]"
    by (simp_all add: policy_at_def test_model_def p_assertion_def g_assertion_def)
  ultimately show ?thesis
    by (intro exI [of _ db1] exI [of _ model']) simp
qed

text \<open>
  Claim C6 as stated fails for a policy type that is not empty but does not begin with the
  name of its section: the rule saved from type \<^verbatim>\<open>x\<close> of section \<^verbatim>\<open>p\<close> is stored
  with type \<^verbatim>\<open>x\<close>, the reload looks for the assertion under section \<^verbatim>\<open>x\<close>, which
  the model lacks, and \<^verbatim>\<open>LoadPolicy\<close> panics.
\<close>

theorem SavePolicy_then_LoadPolicy_misfiled_counterexample:
  "SavePolicy no_faults NewAdapter [''x''] [] [] misfiled_model
     = (None, [rule_document 1 ''x'' [''alice'', ''data1'', ''read'']])
   \<and> LoadPolicy no_faults NewAdapter [rule_document 1 ''x'' [''alice'', ''data1'', ''read'']]
       (ClearPolicy misfiled_model)
     = Inl NilPointerDereference"
proof -
  have "saved_lines misfiled_model [''x''] [] = [savePolicyLine ''x'' [''alice'', ''data1'', ''read'']]"
    by (simp add: saved_lines_def SavePolicy_lines_def range_map_def section_of_def
        misfiled_model_def)
  moreover have "saved_db NewAdapter [] [savePolicyLine ''x'' [''alice'', ''data1'', ''read'']]
      = [rule_document 1 ''x'' [''alice'', ''data1'', ''read'']]"
    by (simp add: saved_db_def fresh_id_def rule_document_def collection_NewAdapter)
  ultimately have save: "SavePolicy no_faults NewAdapter [''x''] [] [] misfiled_model
     = (None, [rule_document 1 ''x'' [''alice'', ''data1'', ''read'']])"
    using SavePolicy_no_faults [of "[]" NewAdapter "[''x'']" "[]" misfiled_model] by simp
  have read: "LoadPolicy_read (Documents no_faults
        [rule_document 1 ''x'' [''alice'', ''data1'', ''read'']] (newQuery NewAdapter)) []
      = Inr [savePolicyLine ''x'' [''alice'', ''data1'', ''read'']]"
    by (simp add: Documents_no_faults matches_newQuery policy_record_examples
        DataTo_rule_document)
  have "loadPolicyLine (savePolicyLine ''x'' [''alice'', ''data1'', ''read''])
      (ClearPolicy misfiled_model) = Inl NilPointerDereference"
    by (simp add: loadPolicyLine_def PType_savePolicyLine ClearPolicy_def misfiled_model_def)
  then have "LoadPolicy no_faults NewAdapter [rule_document 1 ''x'' [''alice'', ''data1'', ''read'']]
       (ClearPolicy misfiled_model) = Inl NilPointerDereference"
    unfolding LoadPolicy_def read by simp
  with save show ?thesis
    by simp
qed

end
